theory Spec2Isabelle
  imports Main "HOL-Library.Sublist"
begin

section \<open>JavaScript strings\<close>

text \<open>
  A JavaScript string is the sequence of its UTF-16 code units. It is modelled as a
  \<^typ>\<open>string\<close>, one \<^typ>\<open>char\<close> per code unit, which covers the code units below 256
  (ASCII and Latin-1). The built-in string operations the sources call are written
  out for that range.
\<close>

definition is_space :: "char \<Rightarrow> bool" where
  \<comment> \<open>\<open>\s\<close> of a regular expression and what \<open>trim()\<close> strips: the white space and line
     terminator code units (TAB, LF, VT, FF, CR, SP, NBSP).\<close>
  "is_space c \<longleftrightarrow> c \<in> set [CHR 0x09, CHR 0x0A, CHR 0x0B, CHR 0x0C, CHR 0x0D, CHR 0x20, CHR 0xA0]"

definition trim :: "string \<Rightarrow> string" where
  "trim s = rev (dropWhile is_space (rev (dropWhile is_space s)))"

fun split_on :: "char \<Rightarrow> string \<Rightarrow> string list" where
  \<comment> \<open>\<open>s.split(d)\<close> for a one-character separator: never empty, even for the empty string.\<close>
  "split_on d [] = [[]]"
| "split_on d (c # cs) =
     (if c = d then [] # split_on d cs
      else (let r = split_on d cs in (c # hd r) # tl r))"

definition toLowerCase_char :: "char \<Rightarrow> char" where
  \<comment> \<open>A-Z and the Latin-1 capitals U+00C0..U+00DE (without the multiplication sign
     U+00D7) move up by 32; every other code unit below 256 is its own lower case.\<close>
  "toLowerCase_char c =
     (let n = (of_char c :: nat)
      in if (65 \<le> n \<and> n \<le> 90) \<or> (192 \<le> n \<and> n \<le> 222 \<and> n \<noteq> 215)
         then char_of (n + 32) else c)"

definition toLowerCase :: "string \<Rightarrow> string" where
  "toLowerCase s = map toLowerCase_char s"

definition strip_v :: "string \<Rightarrow> string" where
  \<comment> \<open>\<open>s.replace(/^v/, '')\<close>\<close>
  "strip_v s = (case s of c # cs \<Rightarrow> if c = CHR ''v'' then cs else s | [] \<Rightarrow> [])"

definition strip_range :: "string \<Rightarrow> string" where
  \<comment> \<open>\<open>s.replace(/^[\^~]/, '')\<close>\<close>
  "strip_range s =
     (case s of c # cs \<Rightarrow> if c = CHR ''^'' \<or> c = CHR ''~'' then cs else s | [] \<Rightarrow> [])"

fun show_digits :: "nat \<Rightarrow> nat \<Rightarrow> string" where
  \<comment> \<open>The decimal digits of \<open>n\<close>; the first argument bounds the number of digits.\<close>
  "show_digits 0 n = []"
| "show_digits (Suc k) n =
     (if n < 10 then [char_of (48 + n)]
      else show_digits k (n div 10) @ [char_of (48 + n mod 10)])"

definition show_nat :: "nat \<Rightarrow> string" where
  \<comment> \<open>\<open>String(n)\<close> for a non-negative integer such as a length or an index.\<close>
  "show_nat n = show_digits (Suc n) n"

section \<open>Ordinary objects used as dictionaries\<close>

text \<open>
  The sources keep their dictionaries in ordinary objects (\<open>{}\<close>,
  \<open>Record<string, string>\<close>, an object literal, the result of a spread). Such an object
  has its own properties and, behind them, the members of \<open>Object.prototype\<close>. The own
  properties are kept as an association list in creation order.
\<close>

type_synonym 'a object = "(string \<times> 'a) list"

datatype 'a jsprop =
    Value 'a            \<comment> \<open>an own property's value\<close>
  | Inherited string    \<comment> \<open>the member of \<open>Object.prototype\<close> of that name\<close>
  | Undefined

definition object_prototype :: "string list" where
  "object_prototype =
     [''constructor'', ''__defineGetter__'', ''__defineSetter__'', ''hasOwnProperty'',
      ''__lookupGetter__'', ''__lookupSetter__'', ''isPrototypeOf'',
      ''propertyIsEnumerable'', ''toString'', ''valueOf'', ''__proto__'',
      ''toLocaleString'']"

definition obj_get :: "'a object \<Rightarrow> string \<Rightarrow> 'a jsprop" where
  \<comment> \<open>\<open>o[k]\<close>: the own property, else what the prototype chain gives.\<close>
  "obj_get ps k =
     (case map_of ps k of
        Some v \<Rightarrow> Value v
      | None \<Rightarrow> if k \<in> set object_prototype then Inherited k else Undefined)"

fun obj_define :: "'a object \<Rightarrow> string \<Rightarrow> 'a \<Rightarrow> 'a object" where
  \<comment> \<open>Creating or overwriting an own data property: an existing key keeps its place.\<close>
  "obj_define [] k v = [(k, v)]"
| "obj_define ((k', v') # ps) k v =
     (if k' = k then (k, v) # ps else (k', v') # obj_define ps k v)"

definition obj_assign :: "string object \<Rightarrow> string \<Rightarrow> string \<Rightarrow> string object" where
  \<comment> \<open>\<open>o[k] = v\<close> for a string \<open>v\<close>. The key \<open>__proto__\<close> is an accessor of
     \<open>Object.prototype\<close> whose setter ignores a value that is not an object; every other
     inherited member is a writable data property, so the assignment creates an own
     property.\<close>
  "obj_assign ps k v = (if k = ''__proto__'' then ps else obj_define ps k v)"

definition is_digit :: "char \<Rightarrow> bool" where
  "is_digit c \<longleftrightarrow> c \<in> set ''0123456789''"

definition digit_value :: "char \<Rightarrow> nat" where
  "digit_value c = of_char c - 48"

fun digits_le :: "string \<Rightarrow> string \<Rightarrow> bool" where
  \<comment> \<open>the order of two decimal numerals of the same length\<close>
  "digits_le [] [] = True"
| "digits_le (a # as) (b # bs) =
     (digit_value a < digit_value b \<or> (digit_value a = digit_value b \<and> digits_le as bs))"
| "digits_le _ _ = False"

definition array_index :: "string \<Rightarrow> nat option" where
  \<comment> \<open>A key that is an array index: the canonical decimal form of an integer below
     \<open>2^32 - 1\<close>.\<close>
  "array_index k =
     (if k \<noteq> [] \<and> list_all is_digit k \<and> (k = ''0'' \<or> hd k \<noteq> CHR ''0'')
         \<and> (length k < 10 \<or> (length k = 10 \<and> digits_le k ''4294967294''))
      then Some (foldl (\<lambda>n c. 10 * n + digit_value c) 0 k) else None)"

definition index_key :: "string \<times> 'a \<Rightarrow> nat" where
  "index_key p = (case array_index (fst p) of Some n \<Rightarrow> n | None \<Rightarrow> 0)"

definition Object_entries :: "'a object \<Rightarrow> (string \<times> 'a) list" where
  \<comment> \<open>\<open>Object.entries(o)\<close>: the array-index keys in ascending order, then the other keys
     in creation order.\<close>
  "Object_entries ps =
     sort_key index_key (filter (\<lambda>p. array_index (fst p) \<noteq> None) ps)
     @ filter (\<lambda>p. array_index (fst p) = None) ps"

definition truthy :: "string jsprop \<Rightarrow> bool" where
  "truthy x = (case x of Value s \<Rightarrow> s \<noteq> [] | Inherited n \<Rightarrow> True | Undefined \<Rightarrow> False)"

section \<open>parsers.ts: the manifest differ\<close>

datatype ecosystem = Npm | Pypi

record DependencyChange =
  package :: string
  fromVersion :: "string jsprop"
  toVersion :: string
  ecosystem :: ecosystem

text \<open>
  \<open>fromVersion\<close> is declared a string. parseRequirementsTxt and parsePyprojectToml store
  there what \<open>oldDeps[pkg]\<close> returned, which is an own string or an inherited member.
\<close>

subsection \<open>The two regular expressions\<close>

definition is_name_char :: "char \<Rightarrow> bool" where
  \<comment> \<open>\<open>[a-zA-Z0-9_-]\<close>\<close>
  "is_name_char c \<longleftrightarrow>
     c \<in> set ''abcdefghijklmnopqrstuvwxyzABCDEFGHIJKLMNOPQRSTUVWXYZ0123456789_-''"

definition is_op_char :: "char \<Rightarrow> bool" where
  \<comment> \<open>\<open>[=~<>!]\<close>\<close>
  "is_op_char c \<longleftrightarrow> c \<in> set ''=~<>!''"

definition is_version_char :: "char \<Rightarrow> bool" where
  \<comment> \<open>\<open>[0-9.]\<close>\<close>
  "is_version_char c \<longleftrightarrow> c \<in> set ''0123456789.''"

definition match_spec :: "string \<Rightarrow> ((string \<times> string \<times> string) \<times> string) option" where
  \<comment> \<open>\<open>([a-zA-Z0-9_-]+)\s*([=~<>!]+)\s*([0-9.]+)\<close> at the start of the input: the three
     groups and the input left after the match. Each of the five parts is greedy, and no
     part can start with a character of the part before it, so giving characters back
     never turns a failed match into a match: the greedy split is the only one.\<close>
  "match_spec s =
     (let name = takeWhile is_name_char s;
          r1 = dropWhile is_name_char s;
          r2 = dropWhile is_space r1;
          ops = takeWhile is_op_char r2;
          r3 = dropWhile is_op_char r2;
          r4 = dropWhile is_space r3;
          ver = takeWhile is_version_char r4;
          r5 = dropWhile is_version_char r4
      in if name = [] \<or> ops = [] \<or> ver = [] then None else Some ((name, ops, ver), r5))"

definition req_match :: "string \<Rightarrow> (string \<times> string \<times> string) option" where
  \<comment> \<open>\<open>trimmed.match(/^([a-zA-Z0-9_-]+)\s*([=~<>!]+)\s*([0-9.]+)/)\<close>: groups 1, 2, 3\<close>
  "req_match s = map_option fst (match_spec s)"

definition pyproject_match :: "string \<Rightarrow> ((string \<times> string \<times> string) \<times> string) option" where
  \<comment> \<open>\<open>/["']([a-zA-Z0-9_-]+)\s*([><=~!]+)\s*([0-9.]+)/\<close> at the start of the input\<close>
  "pyproject_match s =
     (case s of
        [] \<Rightarrow> None
      | q # rest \<Rightarrow> if q = CHR 0x22 \<or> q = CHR 0x27 then match_spec rest else None)"

subsection \<open>requirements.txt\<close>

definition parseReqLines_step :: "string object \<Rightarrow> string \<Rightarrow> string object" where
  \<comment> \<open>the body of the loop over the lines\<close>
  "parseReqLines_step deps line =
     (let trimmed = trim line
      in if trimmed = [] \<or> prefix ''#'' trimmed \<or> prefix ''-'' trimmed then deps
         else (case req_match trimmed of
                 Some (name, ops, ver) \<Rightarrow> obj_assign deps (toLowerCase name) ver
               | None \<Rightarrow> deps))"

definition parseReqLines :: "string \<Rightarrow> string object" where
  "parseReqLines content = foldl parseReqLines_step [] (split_on CHR 0x0A content)"

definition diff_step ::
  "ecosystem \<Rightarrow> string object \<Rightarrow> DependencyChange list \<Rightarrow> string \<times> string \<Rightarrow> DependencyChange list"
where
  \<comment> \<open>the body of the loop over \<open>Object.entries(newDeps)\<close>, the same in
     parseRequirementsTxt and parsePyprojectToml\<close>
  "diff_step eco oldDeps changes entry =
     (let pkg = fst entry; newVersion = snd entry; oldVersion = obj_get oldDeps pkg
      in if truthy oldVersion \<and> oldVersion \<noteq> Value newVersion
         then changes @ [\<lparr>package = pkg, fromVersion = oldVersion, toVersion = newVersion,
                          ecosystem = eco\<rparr>]
         else changes)"

definition parseRequirementsTxt :: "string \<Rightarrow> string \<Rightarrow> DependencyChange list" where
  "parseRequirementsTxt oldContent newContent =
     (let oldDeps = parseReqLines oldContent;
          newDeps = parseReqLines newContent
      in foldl (diff_step Pypi oldDeps) [] (Object_entries newDeps))"

subsection \<open>pyproject.toml\<close>

lemma match_spec_shorter:
  "match_spec s = Some (g, rest) \<Longrightarrow> length rest \<le> length s"
proof -
  have d: "\<And>P (xs :: string). length (dropWhile P xs) \<le> length xs"
    by (simp add: length_dropWhile_le)
  assume "match_spec s = Some (g, rest)"
  then have "rest = dropWhile is_version_char (dropWhile is_space (dropWhile is_op_char
      (dropWhile is_space (dropWhile is_name_char s))))"
    by (auto simp: match_spec_def Let_def split: if_splits)
  then show ?thesis
    using d order_trans by (metis (no_types, lifting))
qed

lemma pyproject_match_shorter:
  "pyproject_match s = Some (g, rest) \<Longrightarrow> length rest < length s"
  by (cases s) (auto simp: pyproject_match_def split: if_splits dest: match_spec_shorter)

function pyproject_scan :: "string object \<Rightarrow> string \<Rightarrow> string object" where
  \<comment> \<open>The \<open>while ((match = regex.exec(content)) !== null)\<close> loop of parsePyprojectDeps on
     the input from \<open>lastIndex\<close> on: the leftmost match is recorded and the search goes on
     behind it.\<close>
  "pyproject_scan deps s =
     (if s = [] then deps
      else (case pyproject_match s of
              Some ((name, ops, ver), rest) \<Rightarrow>
                pyproject_scan (obj_assign deps (toLowerCase name) ver) rest
            | None \<Rightarrow> pyproject_scan deps (tl s)))"
  by pat_completeness auto
termination
  by (relation "measure (\<lambda>(deps, s). length s)")
     (auto dest: pyproject_match_shorter simp: less_Suc_eq_le)

definition parsePyprojectDeps :: "string \<Rightarrow> string object" where
  "parsePyprojectDeps content = pyproject_scan [] content"

definition parsePyprojectToml :: "string \<Rightarrow> string \<Rightarrow> DependencyChange list" where
  "parsePyprojectToml oldContent newContent =
     (let oldDeps = parsePyprojectDeps oldContent;
          newDeps = parsePyprojectDeps newContent
      in foldl (diff_step Pypi oldDeps) [] (Object_entries newDeps))"

subsection \<open>package.json\<close>

text \<open>
  \<open>JSON.parse\<close> is a built-in of the platform; the model takes it as a parameter. A
  parsed document is a \<open>json\<close> value. A number is held as its canonical rendering, the
  string \<open>String(n)\<close> returns: two numbers of a document are equal exactly when their
  renderings are, and a number is falsy exactly when it renders as \<open>0\<close>. An object holds
  its members in the order of the document text, a repeated key included.
  The text \<open>String(f)\<close> of a built-in function \<open>f\<close> is implementation-defined and a
  parameter as well.
\<close>

datatype json =
    JNull
  | JBool bool
  | JNum string
  | JStr string
  | JArr "json list"
  | JObj "(string \<times> json) list"

datatype js_error =
    SyntaxError        \<comment> \<open>\<open>JSON.parse\<close> on a malformed document\<close>
  | TypeError
  | FetchRejected      \<comment> \<open>\<open>fetch\<close> rejects: a transport error\<close>
  | BodyRejected       \<comment> \<open>\<open>response.json()\<close> rejects: the body is not JSON\<close>
  | ApiError nat       \<comment> \<open>the \<open>Error\<close> thrown for a response that is not ok, with its status\<close>

record platform =
  JSON_parse :: "string \<Rightarrow> json option"      \<comment> \<open>\<open>None\<close>: throws a SyntaxError\<close>
  function_text :: "string \<Rightarrow> string"        \<comment> \<open>\<open>String(f)\<close> of the built-in function of that name\<close>

definition inherited_text :: "platform \<Rightarrow> string \<Rightarrow> string" where
  \<comment> \<open>\<open>String(x)\<close> of a member of \<open>Object.prototype\<close>: \<open>__proto__\<close> reads as the prototype
     object itself, every other member is a function.\<close>
  "inherited_text P n = (if n = ''__proto__'' then ''[object Object]'' else function_text P n)"

definition str_String :: "platform \<Rightarrow> string jsprop \<Rightarrow> string" where
  \<comment> \<open>the conversion to a string a template literal and \<open>encodeURIComponent\<close> apply\<close>
  "str_String P x =
     (case x of Value s \<Rightarrow> s | Inherited n \<Rightarrow> inherited_text P n | Undefined \<Rightarrow> ''undefined'')"

definition obj_of :: "(string \<times> 'a) list \<Rightarrow> 'a object" where
  \<comment> \<open>The object built by defining the members in order: a later member of the same
     key replaces the value and keeps the place.\<close>
  "obj_of ps = foldl (\<lambda>obj p. obj_define obj (fst p) (snd p)) [] ps"

definition get_member :: "json \<Rightarrow> string \<Rightarrow> js_error + json jsprop" where
  \<comment> \<open>\<open>v.name\<close> for the names \<open>dependencies\<close> and \<open>devDependencies\<close>, which no built-in
     prototype defines: reading off \<open>null\<close> throws, an object gives its own member, every
     other value gives \<open>undefined\<close>.\<close>
  "get_member v name =
     (case v of
        JNull \<Rightarrow> Inl TypeError
      | JObj ps \<Rightarrow> Inr (obj_get (obj_of ps) name)
      | _ \<Rightarrow> Inr Undefined)"

definition spread :: "json object \<Rightarrow> json jsprop \<Rightarrow> json object" where
  \<comment> \<open>\<open>{...target, ...x}\<close>: the own enumerable properties of \<open>x\<close> are defined on the target
     in the order of their keys. An object gives its members, an array and a string
     their indexed elements, any other value nothing.\<close>
  "spread target x =
     foldl (\<lambda>obj p. obj_define obj (fst p) (snd p)) target
       (case x of
          Value (JObj ps) \<Rightarrow> Object_entries (obj_of ps)
        | Value (JArr xs) \<Rightarrow> zip (map show_nat [0..<length xs]) xs
        | Value (JStr s) \<Rightarrow> zip (map show_nat [0..<length s]) (map (\<lambda>c. JStr [c]) s)
        | _ \<Rightarrow> [])"

definition json_truthy :: "json jsprop \<Rightarrow> bool" where
  "json_truthy x =
     (case x of
        Value JNull \<Rightarrow> False
      | Value (JBool b) \<Rightarrow> b
      | Value (JNum n) \<Rightarrow> n \<noteq> ''0''
      | Value (JStr s) \<Rightarrow> s \<noteq> []
      | Value (JArr xs) \<Rightarrow> True
      | Value (JObj ps) \<Rightarrow> True
      | Inherited n \<Rightarrow> True
      | Undefined \<Rightarrow> False)"

definition strict_neq :: "json jsprop \<Rightarrow> json \<Rightarrow> bool" where
  \<comment> \<open>\<open>oldVersionRaw !== newVersionRaw\<close>. The right side is a value of the new document.
     Primitives compare by value; an array or object of the old document is never the
     same object as one of the new document, nor is an inherited member.\<close>
  "strict_neq x w =
     (case x of
        Value JNull \<Rightarrow> w \<noteq> JNull
      | Value (JBool b) \<Rightarrow> w \<noteq> JBool b
      | Value (JNum n) \<Rightarrow> w \<noteq> JNum n
      | Value (JStr s) \<Rightarrow> w \<noteq> JStr s
      | _ \<Rightarrow> True)"

fun json_String :: "json \<Rightarrow> js_error + string"
  and json_join :: "json list \<Rightarrow> js_error + string"
where
  \<comment> \<open>\<open>String(v)\<close>. An array joins its elements with commas, \<open>null\<close> as the empty string. An
     object renders through the inherited \<open>toString\<close>; an own member \<open>toString\<close> hides it,
     is not callable, and the conversion throws.\<close>
  "json_String JNull = Inr ''null''"
| "json_String (JBool b) = Inr (if b then ''true'' else ''false'')"
| "json_String (JNum n) = Inr n"
| "json_String (JStr s) = Inr s"
| "json_String (JArr xs) = json_join xs"
| "json_String (JObj ps) =
     (if ''toString'' \<in> set (map fst ps) then Inl TypeError else Inr ''[object Object]'')"
| "json_join [] = Inr []"
| "json_join (x # xs) =
     (case (if x = JNull then Inr [] else json_String x) of
        Inl e \<Rightarrow> Inl e
      | Inr s \<Rightarrow>
          (if xs = [] then Inr s
           else (case json_join xs of Inl e \<Rightarrow> Inl e | Inr t \<Rightarrow> Inr (s @ '','' @ t))))"

definition js_String :: "platform \<Rightarrow> json jsprop \<Rightarrow> js_error + string" where
  "js_String P x =
     (case x of
        Value v \<Rightarrow> json_String v
      | Inherited n \<Rightarrow> Inr (inherited_text P n)
      | Undefined \<Rightarrow> Inr ''undefined'')"

fun parsePackageJson_loop ::
  "platform \<Rightarrow> json object \<Rightarrow> (string \<times> json) list \<Rightarrow> DependencyChange list
     \<Rightarrow> DependencyChange list \<times> js_error option"
where
  \<comment> \<open>The loop over \<open>Object.entries(newDeps)\<close>. It returns the array \<open>changes\<close> as it stands
     when the loop ends, and the exception that ended it, if one did.\<close>
  "parsePackageJson_loop P oldDeps [] changes = (changes, None)"
| "parsePackageJson_loop P oldDeps ((pkg, newVersionRaw) # rest) changes =
     (let oldVersionRaw = obj_get oldDeps pkg
      in if json_truthy oldVersionRaw \<and> strict_neq oldVersionRaw newVersionRaw
         then (case js_String P oldVersionRaw of
                 Inl e \<Rightarrow> (changes, Some e)
               | Inr so \<Rightarrow>
                   (case json_String newVersionRaw of
                      Inl e \<Rightarrow> (changes, Some e)
                    | Inr sn \<Rightarrow>
                        (let oldVersion = strip_range so; newVersion = strip_range sn
                         in if oldVersion \<noteq> newVersion
                            then parsePackageJson_loop P oldDeps rest
                                   (changes @ [\<lparr>package = pkg, fromVersion = Value oldVersion,
                                                toVersion = newVersion, ecosystem = Npm\<rparr>])
                            else parsePackageJson_loop P oldDeps rest changes)))
         else parsePackageJson_loop P oldDeps rest changes)"

definition parse_or_empty :: "platform \<Rightarrow> string \<Rightarrow> json option" where
  \<comment> \<open>\<open>content ? JSON.parse(content) : {}\<close>\<close>
  "parse_or_empty P content = (if content \<noteq> [] then JSON_parse P content else Some (JObj []))"

definition merged_deps :: "json \<Rightarrow> js_error + json object" where
  \<comment> \<open>\<open>{ ...pkg.dependencies, ...pkg.devDependencies }\<close>\<close>
  "merged_deps pkg =
     (case get_member pkg ''dependencies'' of
        Inl e \<Rightarrow> Inl e
      | Inr deps \<Rightarrow>
          (case get_member pkg ''devDependencies'' of
             Inl e \<Rightarrow> Inl e
           | Inr dev \<Rightarrow> Inr (spread (spread [] deps) dev)))"

definition parsePackageJson_try ::
  "platform \<Rightarrow> string \<Rightarrow> string \<Rightarrow> DependencyChange list \<times> js_error option"
where
  \<comment> \<open>The \<open>try\<close> block: the array \<open>changes\<close> when the block is left, and the exception that
     left it, if one did.\<close>
  "parsePackageJson_try P oldContent newContent =
     (case parse_or_empty P oldContent of
        None \<Rightarrow> ([], Some SyntaxError)
      | Some oldPkg \<Rightarrow>
          (case parse_or_empty P newContent of
             None \<Rightarrow> ([], Some SyntaxError)
           | Some newPkg \<Rightarrow>
               (case merged_deps oldPkg of
                  Inl e \<Rightarrow> ([], Some e)
                | Inr oldDeps \<Rightarrow>
                    (case merged_deps newPkg of
                       Inl e \<Rightarrow> ([], Some e)
                     | Inr newDeps \<Rightarrow>
                         parsePackageJson_loop P oldDeps (Object_entries newDeps) []))))"

definition parsePackageJson :: "platform \<Rightarrow> string \<Rightarrow> string \<Rightarrow> DependencyChange list" where
  \<comment> \<open>The \<open>catch\<close> clause is empty: with or without an exception the function returns
     \<open>changes\<close>.\<close>
  "parsePackageJson P oldContent newContent = fst (parsePackageJson_try P oldContent newContent)"

subsection \<open>The dispatch on the file name\<close>

definition parseDependencyChanges ::
  "platform \<Rightarrow> string \<Rightarrow> string \<Rightarrow> string \<Rightarrow> DependencyChange list"
where
  "parseDependencyChanges P filename oldContent newContent =
     (if suffix ''requirements.txt'' filename then parseRequirementsTxt oldContent newContent
      else if suffix ''package.json'' filename then parsePackageJson P oldContent newContent
      else if suffix ''pyproject.toml'' filename then parsePyprojectToml oldContent newContent
      else [])"

section \<open>api.ts: the breaking-change resolver\<close>

record BreakingChange =
  change :: string
  fix_text :: "string option"      \<comment> \<open>the optional field \<open>fix\<close>\<close>

record BreakingResult =
  package :: string
  fromVersion :: "string jsprop"
  toVersion :: string
  breakingChanges :: "BreakingChange list"
  migrationUrl :: string

subsection \<open>The network\<close>

text \<open>
  \<open>fetch\<close> is a parameter of the model. Its first argument counts the requests made
  before, so the same URL may be answered differently each time; \<open>None\<close> is a promise
  that rejects. A response carries what \<open>await response.json()\<close> gives, at the type the
  caller asserts for it (\<open>None\<close>: the body promise rejects), so \<open>fetch\<close> comes once for
  each of the two asserted body types. \<open>console.warn\<close> is not modelled.
\<close>

datatype 'a response = Response (ok: bool) (status: nat) (json: "'a option")

datatype diff_data = DiffData (diff_breaking_changes: "BreakingChange list option")
  \<comment> \<open>\<open>{ breaking_changes?: BreakingChange[] }\<close>\<close>

datatype release_entry =
    EntryString string
      \<comment> \<open>\<open>typeof bc === 'string'\<close>\<close>
  | EntryObject (entry_change: "string option") (entry_description: "string option")
      (entry_fix: "string option") (entry_json: string)
      \<comment> \<open>\<open>bc && typeof bc === 'object'\<close>, read as
         \<open>{ change?: string; description?: string; fix?: string }\<close>, with the text
         \<open>JSON.stringify(bc)\<close> returns for it\<close>
  | EntryOther
      \<comment> \<open>a number, a boolean or \<open>null\<close>\<close>

datatype release = Release (tag: string) (release_breaking_changes: "release_entry list option")
  \<comment> \<open>\<open>{ tag: string; breaking_changes?: unknown[] }\<close>\<close>

type_synonym headers = "(string \<times> string) list"

record network =
  fetch_diff :: "nat \<Rightarrow> string \<Rightarrow> headers \<Rightarrow> diff_data response option"
  fetch_releases :: "nat \<Rightarrow> string \<Rightarrow> headers \<Rightarrow> release list response option"

definition CHANGE8_API :: string where
  "CHANGE8_API = ''https://api.change8.dev/api/v1''"

definition getHeaders :: "string option \<Rightarrow> headers" where
  \<comment> \<open>the argument is the module variable \<open>serviceKey\<close>\<close>
  "getHeaders serviceKey =
     [(''Content-Type'', ''application/json'')]
     @ (case serviceKey of
          Some k \<Rightarrow> if k \<noteq> [] then [(''Authorization'', ''Bearer '' @ k)] else []
        | None \<Rightarrow> [])"

definition percent :: "nat \<Rightarrow> string" where
  "percent n = [CHR ''%'', ''0123456789ABCDEF'' ! (n div 16), ''0123456789ABCDEF'' ! (n mod 16)]"

definition encode_unit :: "char \<Rightarrow> string" where
  \<comment> \<open>An unreserved character stands for itself; any other code unit below 256 is
     written as the escaped bytes of its UTF-8 form.\<close>
  "encode_unit c =
     (let n = (of_char c :: nat)
      in if c \<in> set ''ABCDEFGHIJKLMNOPQRSTUVWXYZabcdefghijklmnopqrstuvwxyz0123456789-_.!~*()''
            \<or> c = CHR 0x27
         then [c]
         else if n < 128 then percent n
         else percent (192 + n div 64) @ percent (128 + n mod 64))"

definition encodeURIComponent :: "string \<Rightarrow> string" where
  "encodeURIComponent s = concat (map encode_unit s)"

subsection \<open>The catalog identifier and the guide URL\<close>

definition mappings :: "string object" where
  "mappings =
     [(''langchain'', ''langchain''),
      (''langchain-core'', ''langchain''),
      (''langchain-openai'', ''langchain''),
      (''langchain-community'', ''langchain''),
      (''next'', ''next-js''),
      (''react'', ''react''),
      (''pydantic'', ''pydantic''),
      (''fastapi'', ''fastapi''),
      (''pytorch'', ''pytorch''),
      (''torch'', ''pytorch''),
      (''transformers'', ''transformers''),
      (''openai'', ''openai-python-sdk''),
      (''typescript'', ''typescript''),
      (''vite'', ''vite''),
      (''prisma'', ''prisma''),
      (''tailwindcss'', ''tailwind-css'')]"

definition mapPackageToSourceId :: "string \<Rightarrow> string jsprop" where
  \<comment> \<open>\<open>mappings[packageName.toLowerCase()] || packageName.toLowerCase()\<close>; the table is an
     object literal, so the lookup also sees the inherited members.\<close>
  "mapPackageToSourceId packageName =
     (let m = obj_get mappings (toLowerCase packageName)
      in if truthy m then m else Value (toLowerCase packageName))"

definition buildMigrationUrl :: "platform \<Rightarrow> string jsprop \<Rightarrow> string \<Rightarrow> string" where
  "buildMigrationUrl P sourceId version =
     (let cleanVersion = strip_v version
      in ''https://www.change8.dev/guides/'' @ str_String P sourceId
         @ ''/migrating-to-'' @ cleanVersion)"

subsection \<open>The fallback: the release listing\<close>

fun split_eqeq :: "string \<Rightarrow> string list" where
  \<comment> \<open>\<open>s.split('==')\<close>\<close>
  "split_eqeq [] = [[]]"
| "split_eqeq [c] = [[c]]"
| "split_eqeq (c # d # cs) =
     (if c = CHR ''='' \<and> d = CHR ''='' then [] # split_eqeq cs
      else (let r = split_eqeq (d # cs) in (c # hd r) # tl r))"

definition tagVersion :: "string \<Rightarrow> string" where
  \<comment> \<open>\<open>tag.includes('==') ? tag.split('==')[1] : tag.replace(/^v/, '')\<close>: the tag
     includes the separator exactly when the split has a second part.\<close>
  "tagVersion t = (case split_eqeq t of a # b # rest \<Rightarrow> b | _ \<Rightarrow> strip_v t)"

definition normalise_entry :: "release_entry \<Rightarrow> BreakingChange list" where
  \<comment> \<open>what the loop over \<open>targetRelease.breaking_changes\<close> pushes for one entry\<close>
  "normalise_entry bc =
     (case bc of
        EntryString s \<Rightarrow> [\<lparr>change = s, fix_text = None\<rparr>]
      | EntryObject c d f js \<Rightarrow>
          [\<lparr>change =
              (case c of
                 Some x \<Rightarrow> if x \<noteq> [] then x
                           else (case d of Some y \<Rightarrow> if y \<noteq> [] then y else js | None \<Rightarrow> js)
               | None \<Rightarrow> (case d of Some y \<Rightarrow> if y \<noteq> [] then y else js | None \<Rightarrow> js)),
            fix_text = f\<rparr>]
      | EntryOther \<Rightarrow> [])"

definition releases_url :: "platform \<Rightarrow> string jsprop \<Rightarrow> string" where
  "releases_url P sourceId =
     CHANGE8_API @ ''/releases?source='' @ encodeURIComponent (str_String P sourceId)
     @ ''&limit=50''"

definition getBreakingChangesFromRelease ::
  "platform \<Rightarrow> network \<Rightarrow> string option \<Rightarrow> nat \<Rightarrow> DependencyChange \<Rightarrow> string jsprop
     \<Rightarrow> (js_error + BreakingResult) \<times> nat"
where
  \<comment> \<open>The result or the exception thrown, and the number of requests made so far.\<close>
  "getBreakingChangesFromRelease P net serviceKey n chg sourceId =
     (case fetch_releases net n (releases_url P sourceId) (getHeaders serviceKey) of
        None \<Rightarrow> (Inl FetchRejected, Suc n)
      | Some response \<Rightarrow>
          if \<not> ok response then (Inl (ApiError (status response)), Suc n)
          else (case json response of
                  None \<Rightarrow> (Inl BodyRejected, Suc n)
                | Some releases \<Rightarrow>
                    (let targetRelease =
                           find (\<lambda>r. tagVersion (tag r) = DependencyChange.toVersion chg
                                     \<or> tagVersion (tag r)
                                         = CHR ''v'' # DependencyChange.toVersion chg)
                             releases;
                         found =
                           (case targetRelease of
                              Some r \<Rightarrow>
                                (case release_breaking_changes r of
                                   Some bcs \<Rightarrow> concat (map normalise_entry bcs)
                                 | None \<Rightarrow> [])
                            | None \<Rightarrow> [])
                     in (Inr \<lparr>package = DependencyChange.package chg,
                               fromVersion = DependencyChange.fromVersion chg,
                               toVersion = DependencyChange.toVersion chg,
                               breakingChanges = found,
                               migrationUrl =
                                 buildMigrationUrl P sourceId
                                   (DependencyChange.toVersion chg)\<rparr>,
                         Suc n))))"

subsection \<open>The primary lookup and the batch\<close>

definition diff_url :: "platform \<Rightarrow> DependencyChange \<Rightarrow> string" where
  "diff_url P chg =
     CHANGE8_API @ ''/diff?package=''
     @ encodeURIComponent
         (str_String P (mapPackageToSourceId (DependencyChange.package chg)))
     @ ''&from='' @ encodeURIComponent (str_String P (DependencyChange.fromVersion chg))
     @ ''&to='' @ encodeURIComponent (DependencyChange.toVersion chg)"

definition getBreakingChangesForPackage ::
  "platform \<Rightarrow> network \<Rightarrow> string option \<Rightarrow> nat \<Rightarrow> DependencyChange
     \<Rightarrow> (js_error + BreakingResult) \<times> nat"
where
  \<comment> \<open>A rejected \<open>fetch\<close> and a rejected body are caught and answered by the fallback.
     So is a failure of the fallback that was started inside the \<open>try\<close> block for a
     response that is not ok: \<open>return await\<close> lets the \<open>catch\<close> clause see it, and the
     fallback runs a second time.\<close>
  "getBreakingChangesForPackage P net serviceKey n chg =
     (let sourceId = mapPackageToSourceId (DependencyChange.package chg)
      in case fetch_diff net n (diff_url P chg) (getHeaders serviceKey) of
           None \<Rightarrow> getBreakingChangesFromRelease P net serviceKey (Suc n) chg sourceId
         | Some response \<Rightarrow>
             if \<not> ok response
             then (case getBreakingChangesFromRelease P net serviceKey (Suc n) chg sourceId of
                     (Inr result, n') \<Rightarrow> (Inr result, n')
                   | (Inl e, n') \<Rightarrow>
                       getBreakingChangesFromRelease P net serviceKey n' chg sourceId)
             else (case json response of
                     None \<Rightarrow>
                       getBreakingChangesFromRelease P net serviceKey (Suc n) chg sourceId
                   | Some data \<Rightarrow>
                       (Inr \<lparr>package = DependencyChange.package chg,
                             fromVersion = DependencyChange.fromVersion chg,
                             toVersion = DependencyChange.toVersion chg,
                             breakingChanges =
                               (case diff_breaking_changes data of
                                  Some bcs \<Rightarrow> bcs
                                | None \<Rightarrow> []),
                             migrationUrl =
                               buildMigrationUrl P sourceId
                                 (DependencyChange.toVersion chg)\<rparr>,
                        Suc n)))"

definition resolve_change ::
  "platform \<Rightarrow> network \<Rightarrow> string option \<Rightarrow> nat \<Rightarrow> DependencyChange \<Rightarrow> BreakingResult \<times> nat"
where
  \<comment> \<open>the body of the loop of getBreakingChanges: what is pushed for one change\<close>
  "resolve_change P net serviceKey n chg =
     (case getBreakingChangesForPackage P net serviceKey n chg of
        (Inr result, n') \<Rightarrow> (result, n')
      | (Inl e, n') \<Rightarrow>
          (\<lparr>package = DependencyChange.package chg,
            fromVersion = DependencyChange.fromVersion chg,
            toVersion = DependencyChange.toVersion chg,
            breakingChanges = [],
            migrationUrl =
              buildMigrationUrl P (Value (DependencyChange.package chg))
                (DependencyChange.toVersion chg)\<rparr>,
           n'))"

fun getBreakingChanges_loop ::
  "platform \<Rightarrow> network \<Rightarrow> string option \<Rightarrow> nat \<Rightarrow> DependencyChange list
     \<Rightarrow> BreakingResult list \<Rightarrow> BreakingResult list \<times> nat"
where
  "getBreakingChanges_loop P net serviceKey n [] results = (results, n)"
| "getBreakingChanges_loop P net serviceKey n (chg # rest) results =
     (case resolve_change P net serviceKey n chg of
        (result, n') \<Rightarrow> getBreakingChanges_loop P net serviceKey n' rest (results @ [result]))"

definition getBreakingChanges ::
  "platform \<Rightarrow> network \<Rightarrow> string option \<Rightarrow> DependencyChange list \<Rightarrow> BreakingResult list"
where
  "getBreakingChanges P net serviceKey changes =
     fst (getBreakingChanges_loop P net serviceKey 0 changes [])"

section \<open>index.ts: the comment and the choice of files\<close>

text \<open>
  The comment template holds four symbols whose code units lie above 255. They are
  written as their UTF-8 bytes; the template text is only appended, never measured or
  searched, so no computed value depends on their length.
\<close>

definition glyph_cycle :: string where
  "glyph_cycle = [CHR 0xF0, CHR 0x9F, CHR 0x94, CHR 0x84]"

definition glyph_arrow :: string where
  "glyph_arrow = [CHR 0xE2, CHR 0x86, CHR 0x92]"

definition glyph_warning :: string where
  "glyph_warning = [CHR 0xE2, CHR 0x9A, CHR 0xA0, CHR 0xEF, CHR 0xB8, CHR 0x8F]"

definition glyph_book :: string where
  "glyph_book = [CHR 0xF0, CHR 0x9F, CHR 0x93, CHR 0x96]"

definition marker :: string where
  "marker = ''<!-- change8-action -->''"

definition comment_head :: string where
  "comment_head =
     marker @ ''\<newline>## '' @ glyph_cycle @ '' Change8 Dependency Analysis\<newline>\<newline>''"

definition comment_foot :: string where
  "comment_foot =
     ''\<newline><sub>Powered by [Change8](https://change8.dev) - AI-powered changelog analysis</sub>''"

definition ellipsis :: "nat \<Rightarrow> string \<Rightarrow> string" where
  \<comment> \<open>\<open>s.substring(0, n) + (s.length > n ? '...' : '')\<close>\<close>
  "ellipsis n s = take n s @ (if length s > n then ''...'' else [])"

definition add_row :: "string \<Rightarrow> BreakingChange \<Rightarrow> string" where
  \<comment> \<open>the body of the loop over \<open>result.breakingChanges\<close>\<close>
  "add_row comment bc =
     (let change_cell = ellipsis 80 (change bc);
          fix_cell = (case fix_text bc of
                        Some f \<Rightarrow> if f \<noteq> [] then ellipsis 60 f else ''-''
                      | None \<Rightarrow> ''-'')
      in comment @ ''| '' @ change_cell @ '' | '' @ fix_cell @ '' |\<newline>'')"

definition add_result :: "platform \<Rightarrow> string \<Rightarrow> BreakingResult \<Rightarrow> string" where
  \<comment> \<open>the body of the loop over \<open>withBreaking\<close>\<close>
  "add_result P comment result =
     (let c1 = comment @ ''### '' @ package result @ '': '' @ str_String P (fromVersion result)
                 @ '' '' @ glyph_arrow @ '' '' @ toVersion result @ ''\<newline>\<newline>'';
          c2 = c1 @ glyph_warning @ '' **'' @ show_nat (length (breakingChanges result))
                 @ '' breaking change(s) detected**\<newline>\<newline>'';
          c3 = (if length (breakingChanges result) \<le> 3
                then foldl add_row (c2 @ ''| Issue | Fix |\<newline>|-------|-----|\<newline>'')
                       (breakingChanges result) @ ''\<newline>''
                else c2)
      in c3 @ glyph_book @ '' **[Full Migration Guide '' @ glyph_arrow @ '']('' @ migrationUrl result
         @ '')**\<newline>\<newline>---\<newline>\<newline>'')"

definition generateComment :: "platform \<Rightarrow> BreakingResult list \<Rightarrow> string option" where
  \<comment> \<open>\<open>None\<close> is \<open>null\<close>\<close>
  "generateComment P results =
     (let withBreaking = filter (\<lambda>r. length (breakingChanges r) > 0) results
      in if length withBreaking = 0 then None
         else Some (foldl (add_result P) comment_head withBreaking @ comment_foot))"

definition depFiles :: "string list \<Rightarrow> string list" where
  \<comment> \<open>the filter of \<open>run\<close> over the names of the files the pull request changes\<close>
  "depFiles files =
     filter (\<lambda>f. f = ''requirements.txt''
                \<or> f = ''package.json''
                \<or> f = ''pyproject.toml''
                \<or> suffix ''/requirements.txt'' f
                \<or> suffix ''/package.json'' f) files"

section \<open>Notions used in the statements\<close>

subsection \<open>A failed request\<close>

definition lookup_failed :: "'a response option \<Rightarrow> bool" where
  \<comment> \<open>One request fails: it rejects, its response is not ok, or its body rejects.\<close>
  "lookup_failed r =
     (case r of
        None \<Rightarrow> True
      | Some response \<Rightarrow> if ok response then json response = None else True)"

subsection \<open>Sample inputs\<close>

text \<open>
  The concrete inputs of the examples below. \<open>sample_platform\<close> answers \<open>JSON.parse\<close> on
  the documents listed as Node.js does and rejects every other text, which is what
  \<open>JSON.parse\<close> does for the malformed text \<open>{\<close> used below; its built-in functions print
  as they do in V8.
\<close>

definition sample_function_text :: "string \<Rightarrow> string" where
  "sample_function_text n =
     ''function '' @ (if n = ''constructor'' then ''Object'' else n) @ ''() { [native code] }''"

definition manifest_old :: string where
  "manifest_old =
     ''{\"dependencies\":{\"lodash\":\"^1.2.3\",\"vite\":\"^1.2.3\",\"left-pad\":\"\"}}''"

definition manifest_new :: string where
  "manifest_new =
     ''{\"dependencies\":{\"lodash\":\"1.2.3\",\"vite\":\"^2.0.0\",\"left-pad\":\"1.0.0\"}}''"

definition sample_documents :: "(string \<times> json) list" where
  "sample_documents =
     [(''{\"dependencies\":{\"React\":\"^17.0.0\"}}'',
       JObj [(''dependencies'', JObj [(''React'', JStr ''^17.0.0'')])]),
      (''{\"dependencies\":{\"React\":\"^18.0.0\"}}'',
       JObj [(''dependencies'', JObj [(''React'', JStr ''^18.0.0'')])]),
      (manifest_old,
       JObj [(''dependencies'',
              JObj [(''lodash'', JStr ''^1.2.3''), (''vite'', JStr ''^1.2.3''),
                    (''left-pad'', JStr [])])]),
      (manifest_new,
       JObj [(''dependencies'',
              JObj [(''lodash'', JStr ''1.2.3''), (''vite'', JStr ''^2.0.0''),
                    (''left-pad'', JStr ''1.0.0'')])]),
      (''null'', JNull)]"

definition sample_platform :: platform where
  "sample_platform =
     \<lparr>JSON_parse = map_of sample_documents, function_text = sample_function_text\<rparr>"

definition offline :: network where
  \<comment> \<open>every request rejects\<close>
  "offline = \<lparr>fetch_diff = (\<lambda>n url h. None), fetch_releases = (\<lambda>n url h. None)\<rparr>"

definition first_lookup_down :: network where
  \<comment> \<open>the first request rejects, the release listing answers 503, a later diff request
     is answered\<close>
  "first_lookup_down =
     \<lparr>fetch_diff =
        (\<lambda>n url h. if n = 0 then None
                     else Some (Response True 200
                            (Some (DiffData (Some [\<lparr>change = ''ChatOpenAI moved'',
                                                    fix_text = Some ''Update import''\<rparr>]))))),
      fetch_releases = (\<lambda>n url h. Some (Response False 503 None))\<rparr>"

definition sample_batch :: "DependencyChange list" where
  "sample_batch =
     [\<lparr>DependencyChange.package = ''next'', fromVersion = Value ''13.0.0'',
       toVersion = ''14.0.0'', ecosystem = Npm\<rparr>,
      \<lparr>DependencyChange.package = ''langchain'', fromVersion = Value ''0.2.0'',
       toVersion = ''1.0.0'', ecosystem = Pypi\<rparr>]"

definition release_14 :: "release list" where
  "release_14 = [Release ''v14.0.0'' (Some [EntryString ''Minimum Node.js version is 18.17''])]"

definition listing_recovers :: "nat \<Rightarrow> string \<Rightarrow> headers \<Rightarrow> release list response option" where
  \<comment> \<open>the release listing answers 503 to request 1 and 200 to every other request\<close>
  "listing_recovers n url h =
     (if n = 1 then Some (Response False 503 None)
      else Some (Response True 200 (Some release_14)))"

definition diff_not_found :: network where
  \<comment> \<open>the diff endpoint answers 404\<close>
  "diff_not_found =
     \<lparr>fetch_diff = (\<lambda>n url h. Some (Response False 404 None)),
      fetch_releases = listing_recovers\<rparr>"

definition diff_unreachable :: network where
  \<comment> \<open>the diff request rejects\<close>
  "diff_unreachable =
     \<lparr>fetch_diff = (\<lambda>n url h. None), fetch_releases = listing_recovers\<rparr>"

definition change_next :: DependencyChange where
  "change_next =
     \<lparr>DependencyChange.package = ''next'', fromVersion = Value ''13.0.0'',
      toVersion = ''14.0.0'', ecosystem = Npm\<rparr>"

subsection \<open>The entry a requirements line gives\<close>

definition req_line_entry :: "string \<Rightarrow> (string \<times> string) option" where
  \<comment> \<open>Groups 1 and 3 of the match on a line that parseReqLines neither skips nor fails
     to match: the name as written and the version.\<close>
  "req_line_entry line =
     (let trimmed = trim line
      in if trimmed = [] \<or> prefix ''#'' trimmed \<or> prefix ''-'' trimmed then None
         else map_option (\<lambda>(name, ops, ver). (name, ver)) (req_match trimmed))"

subsection \<open>The parts of a rendered comment\<close>

fun occurrences :: "string \<Rightarrow> string \<Rightarrow> nat" where
  \<comment> \<open>the number of positions of \<open>s\<close> at which \<open>m\<close> starts\<close>
  "occurrences m [] = 0"
| "occurrences m (c # cs) = (if prefix m (c # cs) then 1 else 0) + occurrences m cs"

definition heading :: "platform \<Rightarrow> BreakingResult \<Rightarrow> string" where
  "heading P r =
     ''### '' @ package r @ '': '' @ str_String P (fromVersion r)
     @ '' '' @ glyph_arrow @ '' '' @ toVersion r @ ''\<newline>\<newline>''"

definition count_line :: "BreakingResult \<Rightarrow> string" where
  "count_line r =
     glyph_warning @ '' **'' @ show_nat (length (breakingChanges r))
     @ '' breaking change(s) detected**\<newline>\<newline>''"

definition table_row :: "BreakingChange \<Rightarrow> string" where
  "table_row bc =
     ''| '' @ ellipsis 80 (change bc) @ '' | ''
     @ (case fix_text bc of
          Some f \<Rightarrow> if f \<noteq> [] then ellipsis 60 f else ''-''
        | None \<Rightarrow> ''-'')
     @ '' |\<newline>''"

definition table_block :: "BreakingResult \<Rightarrow> string" where
  "table_block r =
     ''| Issue | Fix |\<newline>|-------|-----|\<newline>''
     @ concat (map table_row (breakingChanges r)) @ ''\<newline>''"

definition guide_link :: "BreakingResult \<Rightarrow> string" where
  "guide_link r =
     glyph_book @ '' **[Full Migration Guide '' @ glyph_arrow @ '']('' @ migrationUrl r
     @ '')**\<newline>\<newline>---\<newline>\<newline>''"

definition rendered_section :: "platform \<Rightarrow> BreakingResult \<Rightarrow> string" where
  \<comment> \<open>the section of one result: the table only for three entries or fewer\<close>
  "rendered_section P r =
     heading P r @ count_line r
     @ (if length (breakingChanges r) \<le> 3 then table_block r else [])
     @ guide_link r"

definition rendered_fields :: "platform \<Rightarrow> BreakingResult \<Rightarrow> string list" where
  \<comment> \<open>the texts of a result that its section shows: the entries only when the table
     is rendered\<close>
  "rendered_fields P r =
     [package r, str_String P (fromVersion r), toVersion r, migrationUrl r]
     @ (if length (breakingChanges r) \<le> 3
        then concat (map (\<lambda>bc. change bc # (case fix_text bc of Some f \<Rightarrow> [f] | None \<Rightarrow> []))
                      (breakingChanges r))
        else [])"

definition clean :: "string \<Rightarrow> bool" where
  \<comment> \<open>no proper end of the marker starts the text\<close>
  "clean t \<longleftrightarrow> list_all (\<lambda>k. \<not> prefix (drop k marker) t) [1..<length marker]"

subsection \<open>Sample results\<close>

definition result_langchain :: BreakingResult where
  "result_langchain =
     \<lparr>package = ''langchain'', fromVersion = Value ''0.2.0'', toVersion = ''1.0.0'',
      breakingChanges = [\<lparr>change = ''ChatOpenAI moved'', fix_text = Some ''Update import''\<rparr>],
      migrationUrl = ''https://www.change8.dev/guides/langchain/migrating-to-1.0.0''\<rparr>"

definition result_react :: BreakingResult where
  \<comment> \<open>four entries\<close>
  "result_react =
     \<lparr>package = ''react'', fromVersion = Value ''17.0.0'', toVersion = ''18.0.0'',
      breakingChanges =
        [\<lparr>change = ''a'', fix_text = None\<rparr>, \<lparr>change = ''b'', fix_text = None\<rparr>,
         \<lparr>change = ''c'', fix_text = None\<rparr>, \<lparr>change = ''d'', fix_text = None\<rparr>],
      migrationUrl = ''https://www.change8.dev/guides/react/migrating-to-18.0.0''\<rparr>"

definition result_quiet :: BreakingResult where
  \<comment> \<open>no entry\<close>
  "result_quiet =
     \<lparr>package = ''vite'', fromVersion = Value ''4.0.0'', toVersion = ''5.0.0'',
      breakingChanges = [],
      migrationUrl = ''https://www.change8.dev/guides/vite/migrating-to-5.0.0''\<rparr>"

definition result_marker :: BreakingResult where
  \<comment> \<open>an entry whose text is the marker\<close>
  "result_marker =
     \<lparr>package = ''vite'', fromVersion = Value ''4.0.0'', toVersion = ''5.0.0'',
      breakingChanges = [\<lparr>change = ''<!-- change8-action -->'', fix_text = None\<rparr>],
      migrationUrl = ''https://www.change8.dev/guides/vite/migrating-to-5.0.0''\<rparr>"

section \<open>Objects and the entries the parsers record\<close>

lemma set_Object_entries: "set (Object_entries ps) = set ps"
  by (auto simp: Object_entries_def)

lemma set_obj_define: "set (obj_define ps k v) \<subseteq> insert (k, v) (set ps)"
  by (induction ps k v rule: obj_define.induct) auto

lemma map_of_obj_define: "map_of (obj_define ps k v) = (map_of ps)(k \<mapsto> v)"
  by (induction ps k v rule: obj_define.induct) (auto simp: fun_eq_iff)

lemma keys_obj_define: "fst ` set (obj_define ps k v) = insert k (fst ` set ps)"
  by (induction ps k v rule: obj_define.induct) auto

lemma distinct_obj_define:
  "distinct (map fst ps) \<Longrightarrow> distinct (map fst (obj_define ps k v))"
  by (induction ps k v rule: obj_define.induct) (auto simp: keys_obj_define)

lemma foldl_diff_step:
  "set (foldl (diff_step eco old) acc es) =
     set acc \<union> {\<lparr>DependencyChange.package = fst e, fromVersion = obj_get old (fst e),
                  toVersion = snd e, ecosystem = eco\<rparr> | e.
                e \<in> set es \<and> truthy (obj_get old (fst e)) \<and> obj_get old (fst e) \<noteq> Value (snd e)}"
  by (induction es arbitrary: acc) (auto simp: diff_step_def Let_def)

lemma parseReqLines_step_entry:
  "parseReqLines_step deps l =
     (case req_line_entry l of
        Some (name, ver) \<Rightarrow> obj_assign deps (toLowerCase name) ver
      | None \<Rightarrow> deps)"
  by (auto simp: parseReqLines_step_def req_line_entry_def Let_def split: option.splits)

lemma parseReqLines_step_entries:
  "(k, v) \<in> set (parseReqLines_step deps l) \<Longrightarrow>
     (k, v) \<in> set deps
     \<or> (\<exists>name. req_line_entry l = Some (name, v) \<and> k = toLowerCase name)"
  using set_obj_define [of deps k v]
  by (auto simp: parseReqLines_step_entry obj_assign_def
           split: if_splits option.splits dest!: set_mp [OF set_obj_define])

lemma foldl_parseReqLines_entries:
  "(k, v) \<in> set (foldl parseReqLines_step deps ls) \<Longrightarrow>
     (k, v) \<in> set deps
     \<or> (\<exists>l \<in> set ls. \<exists>name. req_line_entry l = Some (name, v) \<and> k = toLowerCase name)"
proof (induction ls arbitrary: deps)
  case Nil
  then show ?case by simp
next
  case (Cons l ls)
  from Cons.IH [OF Cons.prems [simplified]] show ?case
    by (auto dest!: parseReqLines_step_entries)
qed

lemma match_spec_suffix: "match_spec s = Some (g, rest) \<Longrightarrow> suffix rest s"
proof -
  assume "match_spec s = Some (g, rest)"
  then have "rest = dropWhile is_version_char (dropWhile is_space (dropWhile is_op_char
      (dropWhile is_space (dropWhile is_name_char s))))"
    by (auto simp: match_spec_def Let_def split: if_splits)
  then show ?thesis
    by (metis suffix_dropWhile suffix_order.trans)
qed

lemma pyproject_match_suffix: "pyproject_match s = Some (g, rest) \<Longrightarrow> suffix rest s"
  by (cases s) (auto simp: pyproject_match_def suffix_Cons split: if_splits dest: match_spec_suffix)

lemma pyproject_scan_entries:
  "(k, v) \<in> set (pyproject_scan deps s) \<Longrightarrow>
     (k, v) \<in> set deps
     \<or> (\<exists>t name ops rest. suffix t s \<and> pyproject_match t = Some ((name, ops, v), rest)
           \<and> k = toLowerCase name)"
proof (induction deps s rule: pyproject_scan.induct)
  case (1 deps s)
  show ?case
  proof (cases "s = []")
    case True
    with "1.prems" show ?thesis by simp
  next
    case False
    show ?thesis
    proof (cases "pyproject_match s")
      case None
      with False "1.prems" have "(k, v) \<in> set (pyproject_scan deps (tl s))" by simp
      from "1.IH"(1) [OF False None this] show ?thesis
        using False by (auto intro: suffix_tl dest: suffix_order.trans [OF _ suffix_tl])
    next
      case (Some m)
      obtain name ops ver rest where m: "m = ((name, ops, ver), rest)"
        by (cases m) auto
      have sfx: "suffix rest s" using Some m by (auto dest: pyproject_match_suffix)
      from False Some m "1.prems"
      have "(k, v) \<in> set (pyproject_scan (obj_assign deps (toLowerCase name) ver) rest)" by simp
      from "1.IH"(2) [OF False Some [unfolded m] refl refl refl this]
      consider (own) "(k, v) \<in> set (obj_assign deps (toLowerCase name) ver)"
        | (later) t n' o' r' where "suffix t rest" "pyproject_match t = Some ((n', o', v), r')"
            "k = toLowerCase n'"
        by blast
      then show ?thesis
      proof cases
        case own
        then have "(k, v) \<in> set deps \<or> (k, v) = (toLowerCase name, ver)"
          using set_obj_define [of deps "toLowerCase name" ver]
          by (auto simp: obj_assign_def split: if_splits)
        then show ?thesis
          using Some m by (auto intro: exI [of _ s])
      next
        case later
        then show ?thesis
          using sfx by (blast intro: suffix_order.trans)
      qed
    qed
  qed
qed

section \<open>The resolver: results and failed lookups\<close>

lemma loop_acc:
  "getBreakingChanges_loop P net k n cs acc =
     (acc @ fst (getBreakingChanges_loop P net k n cs []),
      snd (getBreakingChanges_loop P net k n cs []))"
proof (induction cs arbitrary: n acc)
  case Nil
  show ?case by simp
next
  case (Cons c cs)
  obtain r n' where r: "resolve_change P net k n c = (r, n')"
    by (cases "resolve_change P net k n c")
  show ?case
    using Cons.IH [of n' "acc @ [r]"] Cons.IH [of n' "[r]"] by (simp add: r)
qed

lemma loop_Cons:
  "fst (getBreakingChanges_loop P net k n (c # cs) []) =
     fst (resolve_change P net k n c)
     # fst (getBreakingChanges_loop P net k (snd (resolve_change P net k n c)) cs [])"
  using loop_acc [of P net k "snd (resolve_change P net k n c)" cs "[fst (resolve_change P net k n c)]"]
  by (simp add: case_prod_beta)

lemma loop_snd_Cons:
  "snd (getBreakingChanges_loop P net k n (c # cs) acc) =
     snd (getBreakingChanges_loop P net k (snd (resolve_change P net k n c)) cs [])"
  using loop_acc [of P net k "snd (resolve_change P net k n c)" cs "acc @ [fst (resolve_change P net k n c)]"]
  by (simp add: case_prod_beta)

lemma fromRelease_fields:
  "getBreakingChangesFromRelease P net k n c sid = (Inr r, n') \<Longrightarrow>
     BreakingResult.package r = DependencyChange.package c
     \<and> BreakingResult.fromVersion r = DependencyChange.fromVersion c
     \<and> BreakingResult.toVersion r = DependencyChange.toVersion c
     \<and> migrationUrl r = buildMigrationUrl P sid (DependencyChange.toVersion c)"
  by (auto simp: getBreakingChangesFromRelease_def Let_def split: option.splits if_splits)

lemma forPackage_fields:
  "getBreakingChangesForPackage P net k n c = (Inr r, n') \<Longrightarrow>
     BreakingResult.package r = DependencyChange.package c
     \<and> BreakingResult.fromVersion r = DependencyChange.fromVersion c
     \<and> BreakingResult.toVersion r = DependencyChange.toVersion c
     \<and> migrationUrl r =
         buildMigrationUrl P (mapPackageToSourceId (DependencyChange.package c))
           (DependencyChange.toVersion c)"
  unfolding getBreakingChangesForPackage_def Let_def
  by (auto split: option.splits if_splits prod.splits sum.splits dest!: fromRelease_fields)

lemma resolve_change_fields:
  "BreakingResult.package (fst (resolve_change P net k n c)) = DependencyChange.package c
   \<and> BreakingResult.fromVersion (fst (resolve_change P net k n c)) = DependencyChange.fromVersion c
   \<and> BreakingResult.toVersion (fst (resolve_change P net k n c)) = DependencyChange.toVersion c"
  unfolding resolve_change_def
  by (auto split: prod.splits sum.splits dest!: forPackage_fields)

lemma fromRelease_fails:
  "lookup_failed (fetch_releases net n (releases_url P sid) (getHeaders k)) \<Longrightarrow>
     \<exists>e. getBreakingChangesFromRelease P net k n c sid = (Inl e, Suc n)"
  by (auto simp: lookup_failed_def getBreakingChangesFromRelease_def
           split: option.splits if_splits)

lemma degraded_after_one_fallback:
  assumes "fetch_diff net n (diff_url P c) (getHeaders k) = None
           \<or> (\<exists>st. fetch_diff net n (diff_url P c) (getHeaders k) = Some (Response True st None))"
    and "lookup_failed (fetch_releases net (Suc n)
           (releases_url P (mapPackageToSourceId (DependencyChange.package c))) (getHeaders k))"
  shows "resolve_change P net k n c =
           (\<lparr>package = DependencyChange.package c,
             fromVersion = DependencyChange.fromVersion c,
             toVersion = DependencyChange.toVersion c,
             breakingChanges = [],
             migrationUrl = buildMigrationUrl P (Value (DependencyChange.package c))
                              (DependencyChange.toVersion c)\<rparr>,
            Suc (Suc n))"
proof -
  from fromRelease_fails [OF assms(2)] obtain e where
    "getBreakingChangesFromRelease P net k (Suc n) c
       (mapPackageToSourceId (DependencyChange.package c)) = (Inl e, Suc (Suc n))"
    by blast
  with assms(1) show ?thesis
    by (auto simp: resolve_change_def getBreakingChangesForPackage_def Let_def)
qed

lemma degraded_after_two_fallbacks:
  assumes "fetch_diff net n (diff_url P c) (getHeaders k) = Some response"
    and "\<not> ok response"
    and "lookup_failed (fetch_releases net (Suc n)
           (releases_url P (mapPackageToSourceId (DependencyChange.package c))) (getHeaders k))"
    and "lookup_failed (fetch_releases net (Suc (Suc n))
           (releases_url P (mapPackageToSourceId (DependencyChange.package c))) (getHeaders k))"
  shows "resolve_change P net k n c =
           (\<lparr>package = DependencyChange.package c,
             fromVersion = DependencyChange.fromVersion c,
             toVersion = DependencyChange.toVersion c,
             breakingChanges = [],
             migrationUrl = buildMigrationUrl P (Value (DependencyChange.package c))
                              (DependencyChange.toVersion c)\<rparr>,
            Suc (Suc (Suc n)))"
proof -
  from fromRelease_fails [OF assms(3)] obtain e where 1:
    "getBreakingChangesFromRelease P net k (Suc n) c
       (mapPackageToSourceId (DependencyChange.package c)) = (Inl e, Suc (Suc n))"
    by blast
  from fromRelease_fails [OF assms(4)] obtain e' where 2:
    "getBreakingChangesFromRelease P net k (Suc (Suc n)) c
       (mapPackageToSourceId (DependencyChange.package c)) = (Inl e', Suc (Suc (Suc n)))"
    by blast
  from assms(1,2) 1 2 show ?thesis
    by (simp add: resolve_change_def getBreakingChangesForPackage_def Let_def)
qed

lemma loop_map:
  "map (\<lambda>r. (BreakingResult.package r, BreakingResult.fromVersion r, BreakingResult.toVersion r))
       (fst (getBreakingChanges_loop P net k n cs []))
   = map (\<lambda>c. (DependencyChange.package c, DependencyChange.fromVersion c,
                DependencyChange.toVersion c)) cs"
  by (induction cs arbitrary: n)
     (simp_all add: loop_Cons resolve_change_fields del: getBreakingChanges_loop.simps(2))

lemma getBreakingChanges_fields:
  "map (\<lambda>r. (BreakingResult.package r, BreakingResult.fromVersion r, BreakingResult.toVersion r))
       (getBreakingChanges P net serviceKey changes)
     = map (\<lambda>c. (DependencyChange.package c, DependencyChange.fromVersion c,
                  DependencyChange.toVersion c)) changes"
  unfolding getBreakingChanges_def by (rule loop_map)

lemma buildMigrationUrl_nonempty: "buildMigrationUrl P sid v \<noteq> []"
  by (simp add: buildMigrationUrl_def Let_def)

lemma sample_batch_results:
  "getBreakingChanges sample_platform first_lookup_down None sample_batch =
     [\<lparr>BreakingResult.package = ''next'', fromVersion = Value ''13.0.0'', toVersion = ''14.0.0'',
       breakingChanges = [],
       migrationUrl = ''https://www.change8.dev/guides/next/migrating-to-14.0.0''\<rparr>,
      \<lparr>BreakingResult.package = ''langchain'', fromVersion = Value ''0.2.0'', toVersion = ''1.0.0'',
       breakingChanges = [\<lparr>change = ''ChatOpenAI moved'', fix_text = Some ''Update import''\<rparr>],
       migrationUrl = ''https://www.change8.dev/guides/langchain/migrating-to-1.0.0''\<rparr>]"
  by code_simp

text \<open>
  C1. getBreakingChanges returns one result for each change, in order, with the fields
  of that change (lemma \<open>getBreakingChanges_fields\<close>), and a change whose diff lookup and
  release-listing fallback both fail gets an empty list of breaking changes. The code
  does the latter when the diff request or its body rejects (lemma
  \<open>degraded_after_one_fallback\<close>). When the diff response is not ok, the fallback is
  started inside the \<open>try\<close> block with \<open>return await\<close>, its failure is caught, and the
  \<open>catch\<close> clause runs the fallback a second time: with a diff endpoint that answers
  404 and a release listing that answers 503 and then 200, the primary lookup and the
  fallback have both failed and the result still carries the breaking changes of the
  second listing. With the same listing and a diff request that rejects, the fallback
  runs once and the result is empty.
\<close>

theorem fallback_runs_again_after_not_ok:
  "fetch_diff diff_not_found 0 (diff_url sample_platform change_next) (getHeaders None)
     = Some (Response False 404 None)
   \<and> fetch_releases diff_not_found 1
       (releases_url sample_platform (mapPackageToSourceId ''next'')) (getHeaders None)
     = Some (Response False 503 None)
   \<and> getBreakingChangesFromRelease sample_platform diff_not_found None 1 change_next
       (mapPackageToSourceId ''next'')
     = (Inl (ApiError 503), 2)
   \<and> getBreakingChanges sample_platform diff_not_found None [change_next]
     = [\<lparr>BreakingResult.package = ''next'', fromVersion = Value ''13.0.0'',
         toVersion = ''14.0.0'',
         breakingChanges = [\<lparr>change = ''Minimum Node.js version is 18.17'', fix_text = None\<rparr>],
         migrationUrl = ''https://www.change8.dev/guides/next-js/migrating-to-14.0.0''\<rparr>]
   \<and> getBreakingChanges sample_platform diff_unreachable None [change_next]
     = [\<lparr>BreakingResult.package = ''next'', fromVersion = Value ''13.0.0'',
         toVersion = ''14.0.0'', breakingChanges = [],
         migrationUrl = ''https://www.change8.dev/guides/next/migrating-to-14.0.0''\<rparr>]"
  by code_simp

text \<open>
  C2. The guide URL of every result is built from the catalog identifier and the target
  version without its leading \<open>v\<close>, also when the lookup failed. The code does that for
  a lookup that answers; for a failed lookup it builds the URL from the package name
  itself. For the package \<open>next\<close> (catalog identifier \<open>next-js\<close>) and a network that is
  down, the result carries the guide URL of \<open>next\<close>.
\<close>

theorem failed_lookup_url_from_raw_package:
  "getBreakingChanges sample_platform offline None
     [\<lparr>DependencyChange.package = ''next'', fromVersion = Value ''13.0.0'',
       toVersion = ''14.0.0'', ecosystem = Npm\<rparr>]
     = [\<lparr>BreakingResult.package = ''next'', fromVersion = Value ''13.0.0'',
         toVersion = ''14.0.0'', breakingChanges = [],
         migrationUrl = ''https://www.change8.dev/guides/next/migrating-to-14.0.0''\<rparr>]
   \<and> buildMigrationUrl sample_platform (mapPackageToSourceId ''next'') ''14.0.0''
       = ''https://www.change8.dev/guides/next-js/migrating-to-14.0.0''"
  by code_simp

section \<open>The differ: what is emitted\<close>

lemma parsePackageJson_loop_emitted:
  "parsePackageJson_loop P oldDeps es acc = (cs, x) \<Longrightarrow> c \<in> set cs \<Longrightarrow>
     c \<in> set acc
     \<or> (\<exists>k v so sn. (k, v) \<in> set es
           \<and> json_truthy (obj_get oldDeps k) \<and> strict_neq (obj_get oldDeps k) v
           \<and> js_String P (obj_get oldDeps k) = Inr so \<and> json_String v = Inr sn
           \<and> strip_range so \<noteq> strip_range sn
           \<and> c = \<lparr>DependencyChange.package = k, fromVersion = Value (strip_range so),
                   toVersion = strip_range sn, ecosystem = Npm\<rparr>)"
proof (induction P oldDeps es acc rule: parsePackageJson_loop.induct)
  case (1 P oldDeps changes)
  then show ?case by simp
next
  case (2 P oldDeps pkg newVersionRaw rest changes)
  let ?old = "obj_get oldDeps pkg"
  show ?case
  proof (cases "json_truthy ?old \<and> strict_neq ?old newVersionRaw")
    case False
    with "2.prems" have "parsePackageJson_loop P oldDeps rest changes = (cs, x)"
      by (auto simp: Let_def)
    from "2.IH"(3) [OF refl False this "2.prems"(2)] show ?thesis by auto
  next
    case True
    show ?thesis
    proof (cases "js_String P ?old")
      case (Inl e)
      with True "2.prems" show ?thesis by (auto simp: Let_def)
    next
      case so: (Inr so)
      show ?thesis
      proof (cases "json_String newVersionRaw")
        case (Inl e)
        with True so "2.prems" show ?thesis by (auto simp: Let_def)
      next
        case sn: (Inr sn)
        show ?thesis
        proof (cases "strip_range so \<noteq> strip_range sn")
          case diff: True
          with True so sn "2.prems"
          have "parsePackageJson_loop P oldDeps rest
                  (changes @ [\<lparr>DependencyChange.package = pkg,
                                fromVersion = Value (strip_range so),
                                toVersion = strip_range sn, ecosystem = Npm\<rparr>]) = (cs, x)"
            by (auto simp: Let_def)
          from "2.IH"(1) [OF refl True so sn refl refl diff this "2.prems"(2)]
          show ?thesis using True so sn diff by auto
        next
          case same: False
          with True so sn "2.prems"
          have "parsePackageJson_loop P oldDeps rest changes = (cs, x)"
            by (auto simp: Let_def)
          from "2.IH"(2) [OF refl True so sn refl refl same this "2.prems"(2)]
          show ?thesis by auto
        qed
      qed
    qed
  qed
qed

lemma suffix_last_differs:
  "suffix a f \<Longrightarrow> suffix b f \<Longrightarrow> a \<noteq> [] \<Longrightarrow> b \<noteq> [] \<Longrightarrow> last a = last b"
proof -
  assume a: "suffix a f" "a \<noteq> []" and b: "suffix b f" "b \<noteq> []"
  from a have "last f = last a" by (auto simp: suffix_def)
  moreover from b have "last f = last b" by (auto simp: suffix_def)
  ultimately show ?thesis by simp
qed

lemma pyproject_not_requirements:
  "suffix ''pyproject.toml'' f \<Longrightarrow> \<not> suffix ''requirements.txt'' f"
  by (auto dest: suffix_last_differs)

lemma pyproject_not_package_json:
  "suffix ''pyproject.toml'' f \<Longrightarrow> \<not> suffix ''package.json'' f"
  by (auto dest: suffix_last_differs)

lemma package_json_not_requirements:
  "suffix ''package.json'' f \<Longrightarrow> \<not> suffix ''requirements.txt'' f"
  by (auto dest: suffix_last_differs)

lemma parseRequirementsTxt_emitted:
  "c \<in> set (parseRequirementsTxt old new) \<Longrightarrow>
     \<exists>k v. (k, v) \<in> set (parseReqLines new)
       \<and> c = \<lparr>DependencyChange.package = k, fromVersion = obj_get (parseReqLines old) k,
               toVersion = v, ecosystem = Pypi\<rparr>
       \<and> truthy (obj_get (parseReqLines old) k) \<and> obj_get (parseReqLines old) k \<noteq> Value v"
  by (auto simp: parseRequirementsTxt_def Let_def foldl_diff_step set_Object_entries)

lemma parsePyprojectToml_emitted:
  "c \<in> set (parsePyprojectToml old new) \<Longrightarrow>
     \<exists>k v. (k, v) \<in> set (parsePyprojectDeps new)
       \<and> c = \<lparr>DependencyChange.package = k, fromVersion = obj_get (parsePyprojectDeps old) k,
               toVersion = v, ecosystem = Pypi\<rparr>
       \<and> truthy (obj_get (parsePyprojectDeps old) k)
       \<and> obj_get (parsePyprojectDeps old) k \<noteq> Value v"
  by (auto simp: parsePyprojectToml_def Let_def foldl_diff_step set_Object_entries)

lemma parsePackageJson_emitted:
  assumes "c \<in> set (parsePackageJson P old new)"
  shows "\<exists>oldPkg newPkg oldDeps newDeps k v so sn.
           parse_or_empty P old = Some oldPkg \<and> parse_or_empty P new = Some newPkg
           \<and> merged_deps oldPkg = Inr oldDeps \<and> merged_deps newPkg = Inr newDeps
           \<and> (k, v) \<in> set newDeps
           \<and> json_truthy (obj_get oldDeps k) \<and> strict_neq (obj_get oldDeps k) v
           \<and> js_String P (obj_get oldDeps k) = Inr so \<and> json_String v = Inr sn
           \<and> strip_range so \<noteq> strip_range sn
           \<and> c = \<lparr>DependencyChange.package = k, fromVersion = Value (strip_range so),
                   toVersion = strip_range sn, ecosystem = Npm\<rparr>"
proof -
  obtain oldPkg where o: "parse_or_empty P old = Some oldPkg"
    using assms by (cases "parse_or_empty P old")
      (auto simp: parsePackageJson_def parsePackageJson_try_def)
  obtain newPkg where n: "parse_or_empty P new = Some newPkg"
    using assms o by (cases "parse_or_empty P new")
      (auto simp: parsePackageJson_def parsePackageJson_try_def)
  obtain oldDeps where od: "merged_deps oldPkg = Inr oldDeps"
    using assms o n by (cases "merged_deps oldPkg")
      (auto simp: parsePackageJson_def parsePackageJson_try_def)
  obtain newDeps where nd: "merged_deps newPkg = Inr newDeps"
    using assms o n od by (cases "merged_deps newPkg")
      (auto simp: parsePackageJson_def parsePackageJson_try_def)
  obtain cs x where l: "parsePackageJson_loop P oldDeps (Object_entries newDeps) [] = (cs, x)"
    by (cases "parsePackageJson_loop P oldDeps (Object_entries newDeps) []")
  have "c \<in> set cs"
    using assms o n od nd l by (simp add: parsePackageJson_def parsePackageJson_try_def)
  from parsePackageJson_loop_emitted [OF l this] show ?thesis
    using o n od nd by (auto simp: set_Object_entries)
qed

text \<open>
  C3 (amended). A change emitted for a requirements file carries the lower-case form of
  a name that the requirement pattern matched on a line of the new content that is not
  skipped, and a change
  emitted for a pyproject file the lower-case form of a name that the pyproject pattern
  matched somewhere in the new content. A change emitted for a package.json carries a
  key of the merged dependency object of the new document as it stands there: the
  package.json parser does not change the case.
\<close>

theorem parseDependencyChanges_package_names:
  "(suffix ''requirements.txt'' f \<longrightarrow>
      (\<forall>c \<in> set (parseDependencyChanges P f old new).
         \<exists>line \<in> set (split_on CHR 0x0A new). \<exists>name ver.
           req_line_entry line = Some (name, ver)
           \<and> DependencyChange.package c = toLowerCase name))
   \<and> (suffix ''pyproject.toml'' f \<longrightarrow>
      (\<forall>c \<in> set (parseDependencyChanges P f old new).
         \<exists>t name ops ver rest. suffix t new
           \<and> pyproject_match t = Some ((name, ops, ver), rest)
           \<and> DependencyChange.package c = toLowerCase name))
   \<and> (suffix ''package.json'' f \<longrightarrow>
      (\<forall>c \<in> set (parseDependencyChanges P f old new).
         \<exists>newPkg newDeps. parse_or_empty P new = Some newPkg
           \<and> merged_deps newPkg = Inr newDeps
           \<and> DependencyChange.package c \<in> fst ` set newDeps))"
proof (intro conjI impI ballI)
  fix c
  assume "suffix ''requirements.txt'' f" and "c \<in> set (parseDependencyChanges P f old new)"
  then have "c \<in> set (parseRequirementsTxt old new)"
    by (simp add: parseDependencyChanges_def)
  then obtain k v where kv: "(k, v) \<in> set (parseReqLines new)"
    and c: "DependencyChange.package c = k"
    by (auto dest!: parseRequirementsTxt_emitted)
  from foldl_parseReqLines_entries [OF kv [unfolded parseReqLines_def]]
  show "\<exists>line \<in> set (split_on CHR 0x0A new). \<exists>name ver.
          req_line_entry line = Some (name, ver)
          \<and> DependencyChange.package c = toLowerCase name"
    using c by auto
next
  fix c
  assume s: "suffix ''pyproject.toml'' f" and "c \<in> set (parseDependencyChanges P f old new)"
  then have "c \<in> set (parsePyprojectToml old new)"
    using pyproject_not_requirements [OF s] pyproject_not_package_json [OF s]
    by (simp add: parseDependencyChanges_def)
  then obtain k v where kv: "(k, v) \<in> set (parsePyprojectDeps new)"
    and c: "DependencyChange.package c = k"
    by (auto dest!: parsePyprojectToml_emitted)
  from pyproject_scan_entries [OF kv [unfolded parsePyprojectDeps_def]]
  show "\<exists>t name ops ver rest. suffix t new
          \<and> pyproject_match t = Some ((name, ops, ver), rest)
          \<and> DependencyChange.package c = toLowerCase name"
    using c by auto
next
  fix c
  assume s: "suffix ''package.json'' f" and "c \<in> set (parseDependencyChanges P f old new)"
  then have "c \<in> set (parsePackageJson P old new)"
    using package_json_not_requirements [OF s] by (simp add: parseDependencyChanges_def)
  from parsePackageJson_emitted [OF this]
  show "\<exists>newPkg newDeps. parse_or_empty P new = Some newPkg
          \<and> merged_deps newPkg = Inr newDeps
          \<and> DependencyChange.package c \<in> fst ` set newDeps"
    by force
qed

lemma sample_requirements_change:
  "parseDependencyChanges sample_platform ''requirements.txt''
     ''LangChain==0.2.0'' ''LangChain==1.0.0''
   = [\<lparr>DependencyChange.package = ''langchain'', fromVersion = Value ''0.2.0'',
       toVersion = ''1.0.0'', ecosystem = Pypi\<rparr>]"
  by code_simp

lemma sample_react_change:
  "parseDependencyChanges sample_platform ''package.json''
     ''{\"dependencies\":{\"React\":\"^17.0.0\"}}''
     ''{\"dependencies\":{\"React\":\"^18.0.0\"}}''
   = [\<lparr>DependencyChange.package = ''React'', fromVersion = Value ''17.0.0'',
       toVersion = ''18.0.0'', ecosystem = Npm\<rparr>]"
  by code_simp

lemma sample_pyproject_change:
  "parseDependencyChanges sample_platform ''pyproject.toml''
     (CHR 0x22 # ''Pydantic>=1.10'') (CHR 0x22 # ''Pydantic>=2.0'')
   = [\<lparr>DependencyChange.package = ''pydantic'', fromVersion = Value ''1.10'',
       toVersion = ''2.0'', ecosystem = Pypi\<rparr>]"
  by code_simp

lemma sample_react_new_deps:
  "parse_or_empty sample_platform ''{\"dependencies\":{\"React\":\"^18.0.0\"}}''
     = Some (JObj [(''dependencies'', JObj [(''React'', JStr ''^18.0.0'')])])"
  "merged_deps (JObj [(''dependencies'', JObj [(''React'', JStr ''^18.0.0'')])])
     = Inr [(''React'', JStr ''^18.0.0'')]"
  by code_simp+

theorem parseDependencyChanges_package_names_witness:
  "suffix ''requirements.txt'' ''requirements.txt''
   \<and> parseDependencyChanges sample_platform ''requirements.txt''
        ''LangChain==0.2.0'' ''LangChain==1.0.0''
      = [\<lparr>DependencyChange.package = ''langchain'', fromVersion = Value ''0.2.0'',
          toVersion = ''1.0.0'', ecosystem = Pypi\<rparr>]
   \<and> (\<exists>line \<in> set (split_on CHR 0x0A ''LangChain==1.0.0''). \<exists>name ver.
         req_line_entry line = Some (name, ver) \<and> ''langchain'' = toLowerCase name)
   \<and> suffix ''pyproject.toml'' ''pyproject.toml''
   \<and> parseDependencyChanges sample_platform ''pyproject.toml''
        (CHR 0x22 # ''Pydantic>=1.10'') (CHR 0x22 # ''Pydantic>=2.0'')
      = [\<lparr>DependencyChange.package = ''pydantic'', fromVersion = Value ''1.10'',
          toVersion = ''2.0'', ecosystem = Pypi\<rparr>]
   \<and> (\<exists>t name ops ver rest. suffix t (CHR 0x22 # ''Pydantic>=2.0'')
         \<and> pyproject_match t = Some ((name, ops, ver), rest)
         \<and> ''pydantic'' = toLowerCase name)
   \<and> suffix ''package.json'' ''package.json''
   \<and> parseDependencyChanges sample_platform ''package.json''
        ''{\"dependencies\":{\"React\":\"^17.0.0\"}}''
        ''{\"dependencies\":{\"React\":\"^18.0.0\"}}''
      = [\<lparr>DependencyChange.package = ''React'', fromVersion = Value ''17.0.0'',
          toVersion = ''18.0.0'', ecosystem = Npm\<rparr>]
   \<and> (\<exists>newPkg newDeps.
         parse_or_empty sample_platform ''{\"dependencies\":{\"React\":\"^18.0.0\"}}''
           = Some newPkg
         \<and> merged_deps newPkg = Inr newDeps \<and> ''React'' \<in> fst ` set newDeps)"
  using parseDependencyChanges_package_names
          [of "''requirements.txt''" sample_platform "''LangChain==0.2.0''" "''LangChain==1.0.0''"]
        parseDependencyChanges_package_names
          [of "''pyproject.toml''" sample_platform "CHR 0x22 # ''Pydantic>=1.10''"
              "CHR 0x22 # ''Pydantic>=2.0''"]
        parseDependencyChanges_package_names
          [of "''package.json''" sample_platform
              "''{\"dependencies\":{\"React\":\"^17.0.0\"}}''"
              "''{\"dependencies\":{\"React\":\"^18.0.0\"}}''"]
  by (simp add: sample_requirements_change sample_pyproject_change sample_react_change)

text \<open>
  C3 as stated fails for package.json: the key \<open>React\<close> is emitted as it is written, and
  its lower-case form is \<open>react\<close>.
\<close>

theorem package_json_name_not_lowercased:
  "parseDependencyChanges sample_platform ''package.json''
     ''{\"dependencies\":{\"React\":\"^17.0.0\"}}''
     ''{\"dependencies\":{\"React\":\"^18.0.0\"}}''
   = [\<lparr>DependencyChange.package = ''React'', fromVersion = Value ''17.0.0'',
       toVersion = ''18.0.0'', ecosystem = Npm\<rparr>]
   \<and> toLowerCase ''React'' = ''react''
   \<and> ''React'' \<noteq> ''react''"
  by (simp add: sample_react_change) code_simp

text \<open>
  C4. A change is emitted only for a package of the old snapshot, never for one that the
  new snapshot adds. The code tests \<open>oldDeps[pkg]\<close> for truthiness, and for a name that
  \<open>Object.prototype\<close> defines the lookup answers with the inherited member although the
  old snapshot has no such package: a requirements file that adds the package
  \<open>constructor\<close> yields a change whose fromVersion is the inherited function.
\<close>

theorem added_package_constructor_is_emitted:
  "parseReqLines [] = []
   \<and> parseDependencyChanges P ''requirements.txt'' [] ''constructor==1.0.0''
     = [\<lparr>DependencyChange.package = ''constructor'', fromVersion = Inherited ''constructor'',
         toVersion = ''1.0.0'', ecosystem = Pypi\<rparr>]"
  by code_simp

section \<open>package.json: when a version change is reported\<close>

lemma parsePackageJson_loop_complete:
  "parsePackageJson_loop P oldDeps es acc = (cs, None) \<Longrightarrow>
     set acc \<subseteq> set cs
     \<and> (\<forall>k v so sn. (k, v) \<in> set es
           \<and> json_truthy (obj_get oldDeps k) \<and> strict_neq (obj_get oldDeps k) v
           \<and> js_String P (obj_get oldDeps k) = Inr so \<and> json_String v = Inr sn
           \<and> strip_range so \<noteq> strip_range sn
         \<longrightarrow> \<lparr>DependencyChange.package = k, fromVersion = Value (strip_range so),
               toVersion = strip_range sn, ecosystem = Npm\<rparr> \<in> set cs)"
proof (induction P oldDeps es acc rule: parsePackageJson_loop.induct)
  case (1 P oldDeps changes)
  then show ?case by simp
next
  case (2 P oldDeps pkg newVersionRaw rest changes)
  let ?old = "obj_get oldDeps pkg"
  show ?case
  proof (cases "json_truthy ?old \<and> strict_neq ?old newVersionRaw")
    case False
    with "2.prems" have "parsePackageJson_loop P oldDeps rest changes = (cs, None)"
      by (auto simp: Let_def)
    from "2.IH"(3) [OF refl False this] show ?thesis using False by auto
  next
    case True
    show ?thesis
    proof (cases "js_String P ?old")
      case (Inl e)
      with True "2.prems" show ?thesis by (auto simp: Let_def)
    next
      case so: (Inr so)
      show ?thesis
      proof (cases "json_String newVersionRaw")
        case (Inl e)
        with True so "2.prems" show ?thesis by (auto simp: Let_def)
      next
        case sn: (Inr sn)
        show ?thesis
        proof (cases "strip_range so \<noteq> strip_range sn")
          case diff: True
          with True so sn "2.prems"
          have "parsePackageJson_loop P oldDeps rest
                  (changes @ [\<lparr>DependencyChange.package = pkg,
                                fromVersion = Value (strip_range so),
                                toVersion = strip_range sn, ecosystem = Npm\<rparr>]) = (cs, None)"
            by (auto simp: Let_def)
          from "2.IH"(1) [OF refl True so sn refl refl diff this]
          show ?thesis using so sn by auto
        next
          case same: False
          with True so sn "2.prems"
          have "parsePackageJson_loop P oldDeps rest changes = (cs, None)"
            by (auto simp: Let_def)
          from "2.IH"(2) [OF refl True so sn refl refl same this]
          show ?thesis using so sn same by auto
        qed
      qed
    qed
  qed
qed

lemma distinct_foldl_obj_define:
  "distinct (map fst target) \<Longrightarrow>
     distinct (map fst (foldl (\<lambda>obj p. obj_define obj (fst p) (snd p)) target es))"
  by (induction es arbitrary: target) (simp_all add: distinct_obj_define)

lemma distinct_merged_deps:
  "merged_deps pkg = Inr deps \<Longrightarrow> distinct (map fst deps)"
  by (auto simp: merged_deps_def spread_def distinct_foldl_obj_define split: sum.splits)

lemma strip_range_differs: "strip_range a \<noteq> strip_range b \<Longrightarrow> a \<noteq> b"
  by auto

text \<open>
  C5 (amended). For a package.json pair whose comparison loop ends without an exception,
  a package that both merged dependency objects hold with a string version produces a
  change exactly when the old version string is not empty and the two strings differ
  once a single leading \<open>^\<close> or \<open>~\<close> is taken off each; the change carries the two
  stripped strings.
\<close>

theorem parsePackageJson_change_iff:
  assumes "parse_or_empty P old = Some oldPkg" and "parse_or_empty P new = Some newPkg"
    and "merged_deps oldPkg = Inr oldDeps" and "merged_deps newPkg = Inr newDeps"
    and "snd (parsePackageJson_try P old new) = None"
    and "map_of oldDeps pkg = Some (JStr vo)" and "map_of newDeps pkg = Some (JStr vn)"
  shows "((\<exists>c \<in> set (parsePackageJson P old new). DependencyChange.package c = pkg)
            \<longleftrightarrow> vo \<noteq> [] \<and> strip_range vo \<noteq> strip_range vn)
         \<and> (\<forall>c \<in> set (parsePackageJson P old new).
               DependencyChange.package c = pkg \<longrightarrow>
                 c = \<lparr>DependencyChange.package = pkg, fromVersion = Value (strip_range vo),
                       toVersion = strip_range vn, ecosystem = Npm\<rparr>)"
proof -
  let ?cs = "parsePackageJson P old new"
  let ?c = "\<lparr>DependencyChange.package = pkg, fromVersion = Value (strip_range vo),
             toVersion = strip_range vn, ecosystem = Npm\<rparr>"
  have loop: "parsePackageJson_loop P oldDeps (Object_entries newDeps) [] = (?cs, None)"
    using assms(1-5)
    by (cases "parsePackageJson_loop P oldDeps (Object_entries newDeps) []")
       (simp add: parsePackageJson_def parsePackageJson_try_def)
  have old: "obj_get oldDeps pkg = Value (JStr vo)"
    using assms(6) by (simp add: obj_get_def)
  have entry: "(pkg, JStr vn) \<in> set (Object_entries newDeps)"
    using assms(7) by (simp add: set_Object_entries map_of_SomeD)
  have only: "v = JStr vn" if "(pkg, v) \<in> set (Object_entries newDeps)" for v
    using that assms(7) distinct_merged_deps [OF assms(4)]
    by (simp add: set_Object_entries)
  have emitted: "c = ?c \<and> vo \<noteq> [] \<and> strip_range vo \<noteq> strip_range vn"
    if "c \<in> set ?cs" and "DependencyChange.package c = pkg" for c
  proof -
    from parsePackageJson_loop_emitted [OF loop that(1)]
    obtain k v so sn where kv: "(k, v) \<in> set (Object_entries newDeps)"
      and t: "json_truthy (obj_get oldDeps k)"
      and so: "js_String P (obj_get oldDeps k) = Inr so"
      and sn: "json_String v = Inr sn"
      and d: "strip_range so \<noteq> strip_range sn"
      and c: "c = \<lparr>DependencyChange.package = k, fromVersion = Value (strip_range so),
                   toVersion = strip_range sn, ecosystem = Npm\<rparr>"
      by auto
    from c that(2) have k: "k = pkg" by simp
    with kv only have v: "v = JStr vn" by simp
    from so sn t d show ?thesis
      by (simp add: c k v old js_String_def json_truthy_def)
  qed
  have reported: "?c \<in> set ?cs" if "vo \<noteq> []" and "strip_range vo \<noteq> strip_range vn"
  proof -
    from that(2) have "vo \<noteq> vn" by (rule strip_range_differs)
    then have neq: "strict_neq (obj_get oldDeps pkg) (JStr vn)"
      by (auto simp: old strict_neq_def)
    have tr: "json_truthy (obj_get oldDeps pkg)"
      using that(1) by (simp add: old json_truthy_def)
    have so: "js_String P (obj_get oldDeps pkg) = Inr vo"
      by (simp add: old js_String_def)
    have sn: "json_String (JStr vn) = Inr vn" by simp
    from conjunct2 [OF parsePackageJson_loop_complete [OF loop], rule_format,
                    of pkg "JStr vn" vo vn]
    show ?thesis using entry tr neq so sn that(2) by blast
  qed
  show ?thesis
  proof (intro conjI iffI ballI impI)
    assume "\<exists>c \<in> set ?cs. DependencyChange.package c = pkg"
    then show "vo \<noteq> []" and "strip_range vo \<noteq> strip_range vn"
      using emitted by blast+
  next
    assume "vo \<noteq> [] \<and> strip_range vo \<noteq> strip_range vn"
    then have "?c \<in> set ?cs" using reported by simp
    then show "\<exists>c \<in> set ?cs. DependencyChange.package c = pkg"
      by (rule bexI [rotated]) simp
  next
    fix c
    assume "c \<in> set ?cs" and "DependencyChange.package c = pkg"
    then show "c = ?c" using emitted by blast
  qed
qed

lemma sample_manifest_facts:
  "parse_or_empty sample_platform manifest_old
     = Some (JObj [(''dependencies'',
                    JObj [(''lodash'', JStr ''^1.2.3''), (''vite'', JStr ''^1.2.3''),
                          (''left-pad'', JStr [])])])"
  "parse_or_empty sample_platform manifest_new
     = Some (JObj [(''dependencies'',
                    JObj [(''lodash'', JStr ''1.2.3''), (''vite'', JStr ''^2.0.0''),
                          (''left-pad'', JStr ''1.0.0'')])])"
  "merged_deps (JObj [(''dependencies'',
                       JObj [(''lodash'', JStr ''^1.2.3''), (''vite'', JStr ''^1.2.3''),
                             (''left-pad'', JStr [])])])
     = Inr [(''lodash'', JStr ''^1.2.3''), (''vite'', JStr ''^1.2.3''), (''left-pad'', JStr [])]"
  "merged_deps (JObj [(''dependencies'',
                       JObj [(''lodash'', JStr ''1.2.3''), (''vite'', JStr ''^2.0.0''),
                             (''left-pad'', JStr ''1.0.0'')])])
     = Inr [(''lodash'', JStr ''1.2.3''), (''vite'', JStr ''^2.0.0''),
            (''left-pad'', JStr ''1.0.0'')]"
  "parsePackageJson_try sample_platform manifest_old manifest_new
     = ([\<lparr>DependencyChange.package = ''vite'', fromVersion = Value ''1.2.3'',
          toVersion = ''2.0.0'', ecosystem = Npm\<rparr>], None)"
  by code_simp+

theorem parsePackageJson_change_iff_witness:
  "parsePackageJson sample_platform manifest_old manifest_new
     = [\<lparr>DependencyChange.package = ''vite'', fromVersion = Value ''1.2.3'',
         toVersion = ''2.0.0'', ecosystem = Npm\<rparr>]
   \<and> snd (parsePackageJson_try sample_platform manifest_old manifest_new) = None
   \<and> strip_range ''^1.2.3'' = strip_range ''1.2.3''
   \<and> strip_range ''^1.2.3'' \<noteq> strip_range ''^2.0.0''
   \<and> (\<exists>c \<in> set (parsePackageJson sample_platform manifest_old manifest_new).
         DependencyChange.package c = ''vite'')
   \<and> \<not> (\<exists>c \<in> set (parsePackageJson sample_platform manifest_old manifest_new).
         DependencyChange.package c = ''lodash'')"
  using parsePackageJson_change_iff
          [OF sample_manifest_facts(1) sample_manifest_facts(2) sample_manifest_facts(3)
              sample_manifest_facts(4),
           of "''vite''" "''^1.2.3''" "''^2.0.0''"]
        parsePackageJson_change_iff
          [OF sample_manifest_facts(1) sample_manifest_facts(2) sample_manifest_facts(3)
              sample_manifest_facts(4),
           of "''lodash''" "''^1.2.3''" "''1.2.3''"]
  by (simp add: sample_manifest_facts(5) parsePackageJson_def strip_range_def)

text \<open>
  C5 as stated fails for an old version that is the empty string: \<open>left-pad\<close> is in both
  merged objects, the stripped strings differ, and no change is reported for it,
  because the empty string is falsy.
\<close>

theorem empty_old_version_not_reported:
  "parse_or_empty sample_platform manifest_old
     = Some (JObj [(''dependencies'',
                    JObj [(''lodash'', JStr ''^1.2.3''), (''vite'', JStr ''^1.2.3''),
                          (''left-pad'', JStr [])])])
   \<and> parse_or_empty sample_platform manifest_new
     = Some (JObj [(''dependencies'',
                    JObj [(''lodash'', JStr ''1.2.3''), (''vite'', JStr ''^2.0.0''),
                          (''left-pad'', JStr ''1.0.0'')])])
   \<and> merged_deps (JObj [(''dependencies'',
                       JObj [(''lodash'', JStr ''^1.2.3''), (''vite'', JStr ''^1.2.3''),
                             (''left-pad'', JStr [])])])
     = Inr [(''lodash'', JStr ''^1.2.3''), (''vite'', JStr ''^1.2.3''), (''left-pad'', JStr [])]
   \<and> merged_deps (JObj [(''dependencies'',
                       JObj [(''lodash'', JStr ''1.2.3''), (''vite'', JStr ''^2.0.0''),
                             (''left-pad'', JStr ''1.0.0'')])])
     = Inr [(''lodash'', JStr ''1.2.3''), (''vite'', JStr ''^2.0.0''),
            (''left-pad'', JStr ''1.0.0'')]
   \<and> strip_range [] \<noteq> strip_range ''1.0.0''
   \<and> parsePackageJson sample_platform manifest_old manifest_new
     = [\<lparr>DependencyChange.package = ''vite'', fromVersion = Value ''1.2.3'',
         toVersion = ''2.0.0'', ecosystem = Npm\<rparr>]"
  by (simp add: sample_manifest_facts parsePackageJson_def strip_range_def)

section \<open>The differ never throws\<close>

text \<open>
  C9. parseDependencyChanges is a function into lists: the only operations of the
  differ that can throw stand in the \<open>try\<close> block of parsePackageJson, and whatever
  exception leaves that block, the function returns the array built so far. A file name
  with none of the three suffixes gives the empty list, and so does a package.json whose
  old or new content \<open>JSON.parse\<close> rejects.
\<close>

theorem parseDependencyChanges_never_throws:
  "(\<not> suffix ''requirements.txt'' f \<and> \<not> suffix ''package.json'' f
      \<and> \<not> suffix ''pyproject.toml'' f
      \<longrightarrow> parseDependencyChanges P f old new = [])
   \<and> (suffix ''package.json'' f
       \<and> ((old \<noteq> [] \<and> JSON_parse P old = None) \<or> (new \<noteq> [] \<and> JSON_parse P new = None))
      \<longrightarrow> parseDependencyChanges P f old new = [])
   \<and> (suffix ''package.json'' f
      \<longrightarrow> (\<forall>cs e. parsePackageJson_try P old new = (cs, Some e)
            \<longrightarrow> parseDependencyChanges P f old new = cs))"
proof (intro conjI impI allI)
  assume "\<not> suffix ''requirements.txt'' f \<and> \<not> suffix ''package.json'' f
      \<and> \<not> suffix ''pyproject.toml'' f"
  then show "parseDependencyChanges P f old new = []"
    by (simp add: parseDependencyChanges_def)
next
  assume a: "suffix ''package.json'' f
       \<and> ((old \<noteq> [] \<and> JSON_parse P old = None) \<or> (new \<noteq> [] \<and> JSON_parse P new = None))"
  then have "parse_or_empty P old = None \<or> parse_or_empty P new = None"
    by (auto simp: parse_or_empty_def)
  then have "parsePackageJson P old new = []"
    by (auto simp: parsePackageJson_def parsePackageJson_try_def split: option.splits)
  then show "parseDependencyChanges P f old new = []"
    using a package_json_not_requirements [of f] by (simp add: parseDependencyChanges_def)
next
  fix cs e
  assume "suffix ''package.json'' f" and "parsePackageJson_try P old new = (cs, Some e)"
  then show "parseDependencyChanges P f old new = cs"
    using package_json_not_requirements [of f]
    by (simp add: parseDependencyChanges_def parsePackageJson_def)
qed

lemma sample_try_null:
  "parsePackageJson_try sample_platform ''null'' ''null'' = ([], Some TypeError)"
  by code_simp

lemma sample_malformed: "JSON_parse sample_platform ''{'' = None"
  by code_simp

theorem parseDependencyChanges_never_throws_witness:
  "\<not> suffix ''requirements.txt'' ''README.md'' \<and> \<not> suffix ''package.json'' ''README.md''
   \<and> \<not> suffix ''pyproject.toml'' ''README.md''
   \<and> parseDependencyChanges sample_platform ''README.md'' ''a==1'' ''a==2'' = []
   \<and> suffix ''package.json'' ''web/package.json''
   \<and> JSON_parse sample_platform ''{'' = None
   \<and> parseDependencyChanges sample_platform ''web/package.json'' ''{'' ''{'' = []
   \<and> parsePackageJson_try sample_platform ''null'' ''null'' = ([], Some TypeError)
   \<and> parseDependencyChanges sample_platform ''web/package.json'' ''null'' ''null'' = []"
  using parseDependencyChanges_never_throws
          [of "''README.md''" sample_platform "''a==1''" "''a==2''"]
        parseDependencyChanges_never_throws
          [of "''web/package.json''" sample_platform "''{''" "''{''"]
        parseDependencyChanges_never_throws
          [of "''web/package.json''" sample_platform "''null''" "''null''"]
  by (simp add: sample_try_null sample_malformed suffix_def)

section \<open>requirements.txt: a name on several lines\<close>

lemma foldl_step_other_keys:
  "\<forall>l \<in> set ls. \<forall>name ver. req_line_entry l = Some (name, ver) \<longrightarrow> toLowerCase name \<noteq> k
   \<Longrightarrow> map_of (foldl parseReqLines_step deps ls) k = map_of deps k"
proof (induction ls arbitrary: deps)
  case Nil
  show ?case by simp
next
  case (Cons l ls)
  have "map_of (parseReqLines_step deps l) k = map_of deps k"
    using Cons.prems
    by (auto simp: parseReqLines_step_entry obj_assign_def map_of_obj_define
             split: option.splits)
  with Cons.IH [of "parseReqLines_step deps l"] Cons.prems show ?case by simp
qed

lemma parseReqLines_last_wins:
  assumes "split_on CHR 0x0A content = before @ l # after"
    and "req_line_entry l = Some (name, ver)"
    and "toLowerCase name \<noteq> ''__proto__''"
    and "\<forall>l' \<in> set after. \<forall>name' ver'. req_line_entry l' = Some (name', ver')
           \<longrightarrow> toLowerCase name' \<noteq> toLowerCase name"
  shows "obj_get (parseReqLines content) (toLowerCase name) = Value ver"
proof -
  let ?d = "foldl parseReqLines_step [] before"
  have "map_of (parseReqLines_step ?d l) (toLowerCase name) = Some ver"
    using assms(2,3) by (simp add: parseReqLines_step_entry obj_assign_def map_of_obj_define)
  then have "map_of (parseReqLines content) (toLowerCase name) = Some ver"
    using foldl_step_other_keys [OF assms(4), of "parseReqLines_step ?d l"]
    by (simp add: parseReqLines_def assms(1))
  then show ?thesis by (simp add: obj_get_def)
qed

text \<open>
  C10. When a name stands on several parseable lines of a requirements file, the
  version of the last of them is the one recorded. The code does so for every name but
  \<open>__proto__\<close> (lemma \<open>parseReqLines_last_wins\<close>): the assignment \<open>deps[''__proto__''] = v\<close>
  goes to the inherited accessor and records nothing, so two snapshots that pin
  \<open>__proto__\<close> to different versions show no change.
\<close>

theorem proto_requirement_not_recorded:
  "req_line_entry ''__proto__==1.0.0'' = Some (''__proto__'', ''1.0.0'')
   \<and> req_line_entry ''__proto__==2.0.0'' = Some (''__proto__'', ''2.0.0'')
   \<and> parseReqLines ''__proto__==1.0.0\<newline>__proto__==2.0.0'' = []
   \<and> obj_get (parseReqLines ''__proto__==1.0.0\<newline>__proto__==2.0.0'') ''__proto__''
       = Inherited ''__proto__''
   \<and> parseRequirementsTxt ''__proto__==1.0.0'' ''__proto__==1.0.0\<newline>__proto__==2.0.0'' = []"
  by code_simp

section \<open>The comment\<close>

lemma foldl_add_row: "foldl add_row comment bcs = comment @ concat (map table_row bcs)"
  by (induction bcs arbitrary: comment) (simp_all add: add_row_def table_row_def Let_def)

lemma add_result_section: "add_result P comment r = comment @ rendered_section P r"
  by (simp add: add_result_def rendered_section_def heading_def count_line_def table_block_def
        guide_link_def foldl_add_row Let_def)

lemma foldl_add_result:
  "foldl (add_result P) comment rs = comment @ concat (map (rendered_section P) rs)"
  by (induction rs arbitrary: comment) (simp_all add: add_result_section)

lemma generateComment_eq:
  "generateComment P results =
     (if filter (\<lambda>r. breakingChanges r \<noteq> []) results = [] then None
      else Some (comment_head
                 @ concat (map (rendered_section P) (filter (\<lambda>r. breakingChanges r \<noteq> []) results))
                 @ comment_foot))"
  by (simp add: generateComment_def Let_def foldl_add_result)

text \<open>
  C7. The section of a result with more than three entries is its heading, its count
  line and its guide link, with no table between them; with three entries or fewer the
  table stands between the count line and the link. The comment is the head, the
  sections of the results that have entries, in order, and the foot.
\<close>

theorem generateComment_table_only_up_to_three:
  "(length (breakingChanges r) > 3 \<longrightarrow>
      add_result P comment r = comment @ heading P r @ count_line r @ guide_link r)
   \<and> (length (breakingChanges r) \<le> 3 \<longrightarrow>
      add_result P comment r
        = comment @ heading P r @ count_line r @ table_block r @ guide_link r)
   \<and> (generateComment P results = Some s \<longrightarrow>
      s = comment_head
          @ concat (map (\<lambda>r. heading P r @ count_line r
                              @ (if length (breakingChanges r) \<le> 3 then table_block r else [])
                              @ guide_link r)
                      (filter (\<lambda>r. breakingChanges r \<noteq> []) results))
          @ comment_foot)"
proof -
  have "rendered_section P =
      (\<lambda>r. heading P r @ count_line r
            @ (if length (breakingChanges r) \<le> 3 then table_block r else []) @ guide_link r)"
    by (simp add: fun_eq_iff rendered_section_def)
  then show ?thesis
    by (auto simp: add_result_section rendered_section_def generateComment_eq split: if_splits)
qed

lemma sample_sections:
  "length (breakingChanges result_react) = 4"
  "length (breakingChanges result_langchain) = 1"
  "generateComment sample_platform [result_react, result_quiet, result_langchain]
     = Some (comment_head
             @ (heading sample_platform result_react @ count_line result_react
                @ guide_link result_react)
             @ (heading sample_platform result_langchain @ count_line result_langchain
                @ table_block result_langchain @ guide_link result_langchain)
             @ comment_foot)"
  "heading sample_platform result_langchain
     = ''### langchain: 0.2.0 '' @ glyph_arrow @ '' 1.0.0\<newline>\<newline>''"
  "table_block result_langchain
     = ''| Issue | Fix |\<newline>|-------|-----|\<newline>| ChatOpenAI moved | Update import |\<newline>\<newline>''"
  by code_simp+

theorem generateComment_table_only_up_to_three_witness:
  "length (breakingChanges result_react) > 3
   \<and> add_result sample_platform [] result_react
       = heading sample_platform result_react @ count_line result_react
         @ guide_link result_react
   \<and> length (breakingChanges result_langchain) \<le> 3
   \<and> add_result sample_platform [] result_langchain
       = heading sample_platform result_langchain @ count_line result_langchain
         @ table_block result_langchain @ guide_link result_langchain
   \<and> table_block result_langchain
       = ''| Issue | Fix |\<newline>|-------|-----|\<newline>| ChatOpenAI moved | Update import |\<newline>\<newline>''
   \<and> generateComment sample_platform [result_react, result_quiet, result_langchain]
       = Some (comment_head
               @ (heading sample_platform result_react @ count_line result_react
                  @ guide_link result_react)
               @ (heading sample_platform result_langchain @ count_line result_langchain
                  @ table_block result_langchain @ guide_link result_langchain)
               @ comment_foot)"
  using generateComment_table_only_up_to_three
          [of result_react sample_platform "[]" "[result_react, result_quiet, result_langchain]"]
        generateComment_table_only_up_to_three
          [of result_langchain sample_platform "[]" "[]"]
  by (simp add: sample_sections)

subsection \<open>Counting the marker\<close>

lemma occurrences_no_start:
  "CHR ''<'' \<notin> set a \<Longrightarrow> occurrences marker (a @ b) = occurrences marker b"
  by (induction a) (auto simp: marker_def)

lemma prefix_marker_append:
  assumes "clean t" and "a \<noteq> []"
  shows "prefix marker (a @ t) \<longleftrightarrow> prefix marker a"
proof
  assume "prefix marker a"
  then show "prefix marker (a @ t)" by (rule prefix_prefix)
next
  assume p: "prefix marker (a @ t)"
  show "prefix marker a"
  proof (rule ccontr)
    assume n: "\<not> prefix marker a"
    with p obtain us where us: "marker = a @ us" "prefix us t"
      by (auto simp: prefix_append)
    with n have "0 < length us" by auto
    moreover from us(1) have "length marker = length a + length us"
      by (metis length_append)
    moreover from assms(2) have "0 < length a" by simp
    ultimately have "1 \<le> length a \<and> length a < length marker" by arith
    then have k: "length a \<in> set [1..<length marker]" by simp
    have "drop (length a) (a @ us) = us" by simp
    with us(1) have "drop (length a) marker = us" by metis
    with assms(1) k us(2) show False
      by (auto simp: clean_def list_all_iff)
  qed
qed

lemma occurrences_clean:
  "clean t \<Longrightarrow> occurrences marker (a @ t) = occurrences marker a + occurrences marker t"
proof (induction a)
  case Nil
  show ?case by simp
next
  case (Cons c a)
  from prefix_marker_append [OF Cons.prems, of "c # a"]
  have "prefix marker (c # a @ t) \<longleftrightarrow> prefix marker (c # a)" by simp
  with Cons.IH [OF Cons.prems] show ?case by simp
qed

lemma occurrences_append_le: "occurrences m a \<le> occurrences m (a @ b)"
proof (induction a)
  case Nil
  show ?case by simp
next
  case (Cons c a)
  have "prefix m (c # a) \<Longrightarrow> prefix m (c # a @ b)"
    using prefix_prefix [of m "c # a" b] by simp
  with Cons show ?case by auto
qed

lemma occurrences_take: "occurrences m s = 0 \<Longrightarrow> occurrences m (take n s) = 0"
  using occurrences_append_le [of m "take n s" "drop n s"] by simp

lemma field_then_clean:
  "occurrences marker a = 0 \<Longrightarrow> clean t \<Longrightarrow> occurrences marker (a @ t) = occurrences marker t"
  by (simp add: occurrences_clean)

lemma marker_nth_in_tl:
  assumes "1 \<le> k" and "k < length marker"
  shows "marker ! k \<in> set (tl marker)"
proof -
  from assms have "k - 1 < length (tl marker)" by simp
  then have "tl marker ! (k - 1) \<in> set (tl marker)" by (rule nth_mem)
  moreover from assms have "tl marker ! (k - 1) = marker ! k" by (simp add: nth_tl)
  ultimately show ?thesis by simp
qed

lemma clean_first:
  "c \<notin> set (tl marker) \<Longrightarrow> clean (c # t)"
proof -
  assume c: "c \<notin> set (tl marker)"
  have "\<not> prefix (drop k marker) (c # t)" if "k \<in> set [1..<length marker]" for k
  proof
    assume p: "prefix (drop k marker) (c # t)"
    from that have k: "1 \<le> k" "k < length marker" by auto
    then have "drop k marker = marker ! k # drop (Suc k) marker"
      by (simp add: Cons_nth_drop_Suc)
    with p have "marker ! k = c" by simp
    with marker_nth_in_tl [OF k] c show False by simp
  qed
  then show ?thesis by (simp add: clean_def list_all_iff)
qed

lemma clean_second:
  assumes "(c, d) \<notin> set (zip marker (tl marker))" and "c \<noteq> last marker"
  shows "clean (c # d # t)"
proof -
  have "\<not> prefix (drop k marker) (c # d # t)" if "k \<in> set [1..<length marker]" for k
  proof
    assume p: "prefix (drop k marker) (c # d # t)"
    from that have k: "1 \<le> k" "k < length marker" by auto
    then have dk: "drop k marker = marker ! k # drop (Suc k) marker"
      by (simp add: Cons_nth_drop_Suc)
    with p have c: "marker ! k = c" and p': "prefix (drop (Suc k) marker) (d # t)" by simp_all
    show False
    proof (cases "Suc k < length marker")
      case True
      then have "drop (Suc k) marker = marker ! Suc k # drop (Suc (Suc k)) marker"
        by (simp add: Cons_nth_drop_Suc)
      with p' have d: "marker ! Suc k = d" by simp
      from True have "k < length (zip marker (tl marker))" by simp
      then have "zip marker (tl marker) ! k \<in> set (zip marker (tl marker))" by (rule nth_mem)
      moreover from True have "zip marker (tl marker) ! k = (c, d)"
        using c d by (simp add: nth_tl)
      ultimately show False using assms(1) by simp
    next
      case False
      with k have "k = length marker - 1" by simp
      moreover have "marker \<noteq> []" by (simp add: marker_def)
      ultimately have "marker ! k = last marker" by (simp add: last_conv_nth)
      with c assms(2) show False by simp
    qed
  qed
  then show ?thesis by (simp add: clean_def list_all_iff)
qed

lemma clean_space_bar: "clean (CHR '' '' # CHR ''|'' # t)"
  by (rule clean_second) (simp_all add: marker_def)

lemma clean_space_arrow: "clean (CHR '' '' # glyph_arrow @ t)"
  using clean_second [of "CHR '' ''" "CHR 0xE2" "[CHR 0x86, CHR 0x92] @ t"]
  by (simp add: marker_def glyph_arrow_def)

lemma digits_no_start: "CHR ''<'' \<notin> set (show_digits k n)"
proof (induction k n rule: show_digits.induct)
  case (1 n)
  show ?case by simp
next
  case (2 k n)
  have d: "char_of (48 + m) \<noteq> CHR ''<''" if "m < 10" for m :: nat
  proof
    assume "char_of (48 + m) = CHR ''<''"
    then have "(of_char (char_of (48 + m)) :: nat) = of_char CHR ''<''" by simp
    with that show False by simp
  qed
  show ?case
  proof (cases "n < 10")
    case True
    then show ?thesis using d [of n] by simp
  next
    case False
    then show ?thesis using "2.IH" d [of "n mod 10"] by simp
  qed
qed

lemma ellipsis_then_clean:
  assumes "occurrences marker s = 0" and "clean t"
  shows "occurrences marker (ellipsis n s @ t) = occurrences marker t"
proof (cases "length s > n")
  case True
  have "clean (''...'' @ t)" by (simp add: clean_first marker_def)
  from field_then_clean [OF occurrences_take [OF assms(1)] this]
  have "occurrences marker (take n s @ ''...'' @ t) = occurrences marker (''...'' @ t)" .
  also have "\<dots> = occurrences marker t"
    using occurrences_no_start [of "''...''" t] by simp
  finally show ?thesis using True by (simp add: ellipsis_def)
next
  case False
  then show ?thesis
    using field_then_clean [OF assms] by (simp add: ellipsis_def)
qed

lemma table_row_count:
  assumes "occurrences marker (change bc) = 0"
    and "\<And>f. fix_text bc = Some f \<Longrightarrow> occurrences marker f = 0"
  shows "occurrences marker (table_row bc @ rest) = occurrences marker rest"
proof -
  let ?cell = "(case fix_text bc of
                  Some f \<Rightarrow> if f \<noteq> [] then ellipsis 60 f else ''-'' | None \<Rightarrow> ''-'')"
  have last: "occurrences marker ('' |\<newline>'' @ rest) = occurrences marker rest"
    using occurrences_no_start [of "'' |\<newline>''" rest] by simp
  have cell: "occurrences marker (?cell @ '' |\<newline>'' @ rest) = occurrences marker rest"
  proof (cases "fix_text bc")
    case None
    then show ?thesis
      using occurrences_no_start [of "''- |\<newline>''" rest] by simp
  next
    case (Some f)
    show ?thesis
    proof (cases "f = []")
      case True
      with Some show ?thesis
        using occurrences_no_start [of "''- |\<newline>''" rest] by simp
    next
      case False
      have "clean ('' |\<newline>'' @ rest)" using clean_space_bar by simp
      from ellipsis_then_clean [OF assms(2) [OF Some] this] last
      show ?thesis using Some False by simp
    qed
  qed
  have "clean ('' | '' @ ?cell @ '' |\<newline>'' @ rest)" using clean_space_bar by simp
  from ellipsis_then_clean [OF assms(1) this]
  have "occurrences marker (ellipsis 80 (change bc) @ '' | '' @ ?cell @ '' |\<newline>'' @ rest)
          = occurrences marker ('' | '' @ ?cell @ '' |\<newline>'' @ rest)" .
  also have "\<dots> = occurrences marker (?cell @ '' |\<newline>'' @ rest)"
    using occurrences_no_start [of "'' | ''" "?cell @ '' |\<newline>'' @ rest"] by simp
  also note cell
  finally have "occurrences marker
      (ellipsis 80 (change bc) @ '' | '' @ ?cell @ '' |\<newline>'' @ rest) = occurrences marker rest" .
  then show ?thesis
    using occurrences_no_start
            [of "''| ''" "ellipsis 80 (change bc) @ '' | '' @ ?cell @ '' |\<newline>'' @ rest"]
    by (simp add: table_row_def)
qed

lemma table_rows_count:
  "\<forall>bc \<in> set bcs. occurrences marker (change bc) = 0
           \<and> (\<forall>f. fix_text bc = Some f \<longrightarrow> occurrences marker f = 0)
   \<Longrightarrow> occurrences marker (concat (map table_row bcs) @ rest) = occurrences marker rest"
proof (induction bcs)
  case Nil
  show ?case by simp
next
  case (Cons bc bcs)
  have "occurrences marker (table_row bc @ concat (map table_row bcs) @ rest)
          = occurrences marker (concat (map table_row bcs) @ rest)"
    using Cons.prems by (intro table_row_count) auto
  moreover have "occurrences marker (concat (map table_row bcs) @ rest) = occurrences marker rest"
    using Cons.prems by (intro Cons.IH) auto
  ultimately show ?case by simp
qed

lemma table_block_count:
  assumes "\<forall>bc \<in> set (breakingChanges r). occurrences marker (change bc) = 0
             \<and> (\<forall>f. fix_text bc = Some f \<longrightarrow> occurrences marker f = 0)"
  shows "occurrences marker (table_block r @ rest) = occurrences marker rest"
proof -
  have "occurrences marker (concat (map table_row (breakingChanges r)) @ ''\<newline>'' @ rest)
          = occurrences marker (''\<newline>'' @ rest)"
    using assms by (rule table_rows_count)
  also have "\<dots> = occurrences marker rest"
    using occurrences_no_start [of "''\<newline>''" rest] by simp
  finally show ?thesis
    using occurrences_no_start
            [of "''| Issue | Fix |\<newline>|-------|-----|\<newline>''"
                "concat (map table_row (breakingChanges r)) @ ''\<newline>'' @ rest"]
    by (simp add: table_block_def)
qed

lemma heading_count:
  assumes "occurrences marker (package r) = 0"
    and "occurrences marker (str_String P (fromVersion r)) = 0"
    and "occurrences marker (toVersion r) = 0"
  shows "occurrences marker (heading P r @ rest) = occurrences marker rest"
proof -
  have 1: "occurrences marker (toVersion r @ ''\<newline>\<newline>'' @ rest) = occurrences marker rest"
    using field_then_clean [OF assms(3), of "''\<newline>\<newline>'' @ rest"]
          occurrences_no_start [of "''\<newline>\<newline>''" rest]
    by (simp add: clean_first marker_def)
  have "CHR ''<'' \<notin> set ('' '' @ glyph_arrow @ '' '')" by (simp add: glyph_arrow_def)
  from occurrences_no_start [OF this, of "toVersion r @ ''\<newline>\<newline>'' @ rest"] 1
  have 2: "occurrences marker ('' '' @ glyph_arrow @ '' '' @ toVersion r @ ''\<newline>\<newline>'' @ rest)
             = occurrences marker rest" by simp
  have "clean ('' '' @ glyph_arrow @ '' '' @ toVersion r @ ''\<newline>\<newline>'' @ rest)"
    using clean_space_arrow by simp
  from field_then_clean [OF assms(2) this] 2
  have 3: "occurrences marker (str_String P (fromVersion r) @ '' '' @ glyph_arrow @ '' ''
             @ toVersion r @ ''\<newline>\<newline>'' @ rest) = occurrences marker rest" by simp
  let ?tail = "str_String P (fromVersion r) @ '' '' @ glyph_arrow @ '' ''
             @ toVersion r @ ''\<newline>\<newline>'' @ rest"
  have "occurrences marker ('': '' @ ?tail) = occurrences marker ?tail"
    using occurrences_no_start [of "'': ''" ?tail] by simp
  moreover have "clean ('': '' @ ?tail)" by (simp add: clean_first marker_def)
  ultimately have "occurrences marker (package r @ '': '' @ ?tail) = occurrences marker rest"
    using field_then_clean [OF assms(1), of "'': '' @ ?tail"] 3 by simp
  then show ?thesis
    using occurrences_no_start [of "''### ''" "package r @ '': '' @ ?tail"]
    by (simp add: heading_def)
qed

lemma count_line_count: "occurrences marker (count_line r @ rest) = occurrences marker rest"
proof -
  have "CHR ''<'' \<notin> set (count_line r)"
    by (simp add: count_line_def glyph_warning_def show_nat_def digits_no_start
          del: show_digits.simps)
  then show ?thesis by (rule occurrences_no_start)
qed

lemma guide_link_count:
  assumes "occurrences marker (migrationUrl r) = 0"
  shows "occurrences marker (guide_link r @ rest) = occurrences marker rest"
proof -
  let ?after = "'')**\<newline>\<newline>---\<newline>\<newline>'' @ rest"
  have "occurrences marker ?after = occurrences marker rest"
    using occurrences_no_start [of "'')**\<newline>\<newline>---\<newline>\<newline>''" rest] by simp
  moreover have "clean ?after" by (simp add: clean_first marker_def)
  ultimately have "occurrences marker (migrationUrl r @ ?after) = occurrences marker rest"
    using field_then_clean [OF assms, of ?after] by simp
  moreover have "CHR ''<'' \<notin> set (glyph_book @ '' **[Full Migration Guide '' @ glyph_arrow @ '']('')"
    by (simp add: glyph_book_def glyph_arrow_def)
  ultimately show ?thesis
    using occurrences_no_start
            [of "glyph_book @ '' **[Full Migration Guide '' @ glyph_arrow @ '']('' "
                "migrationUrl r @ ?after"]
    by (simp add: guide_link_def)
qed

lemma rendered_section_count:
  assumes "\<forall>x \<in> set (rendered_fields P r). occurrences marker x = 0"
  shows "occurrences marker (rendered_section P r @ rest) = occurrences marker rest"
proof -
  from assms have f: "occurrences marker (package r) = 0"
    "occurrences marker (str_String P (fromVersion r)) = 0"
    "occurrences marker (toVersion r) = 0" "occurrences marker (migrationUrl r) = 0"
    by (simp_all add: rendered_fields_def)
  have link: "occurrences marker (guide_link r @ rest) = occurrences marker rest"
    using f(4) by (rule guide_link_count)
  have table: "occurrences marker
      ((if length (breakingChanges r) \<le> 3 then table_block r else []) @ guide_link r @ rest)
      = occurrences marker rest"
  proof (cases "length (breakingChanges r) \<le> 3")
    case True
    have "\<forall>bc \<in> set (breakingChanges r). occurrences marker (change bc) = 0
          \<and> (\<forall>f. fix_text bc = Some f \<longrightarrow> occurrences marker f = 0)"
      using assms True by (auto simp: rendered_fields_def)
    then have "occurrences marker (table_block r @ guide_link r @ rest)
                 = occurrences marker (guide_link r @ rest)"
      by (rule table_block_count)
    with link True show ?thesis by simp
  next
    case False
    with link show ?thesis by simp
  qed
  have "occurrences marker (rendered_section P r @ rest)
          = occurrences marker (heading P r @ count_line r
              @ (if length (breakingChanges r) \<le> 3 then table_block r else [])
              @ guide_link r @ rest)"
    by (simp add: rendered_section_def)
  also have "\<dots> = occurrences marker (count_line r
              @ (if length (breakingChanges r) \<le> 3 then table_block r else [])
              @ guide_link r @ rest)"
    using f(1-3) by (rule heading_count)
  also have "\<dots> = occurrences marker
              ((if length (breakingChanges r) \<le> 3 then table_block r else [])
              @ guide_link r @ rest)"
    by (rule count_line_count)
  also note table
  finally show ?thesis .
qed

lemma sections_count:
  "\<forall>r \<in> set rs. \<forall>x \<in> set (rendered_fields P r). occurrences marker x = 0 \<Longrightarrow>
     occurrences marker (concat (map (rendered_section P) rs) @ rest) = occurrences marker rest"
  by (induction rs) (simp_all add: rendered_section_count)

lemma comment_head_count:
  "occurrences marker (comment_head @ rest) = Suc (occurrences marker rest)"
proof -
  define t where
    "t = tl marker @ ''\<newline>## '' @ glyph_cycle @ '' Change8 Dependency Analysis\<newline>\<newline>''"
  have "CHR ''<'' \<notin> set t" by (simp add: t_def marker_def glyph_cycle_def)
  then have 1: "occurrences marker (t @ rest) = occurrences marker rest"
    by (rule occurrences_no_start)
  have 2: "comment_head = CHR ''<'' # t"
    by (simp add: t_def comment_head_def marker_def)
  have "prefix marker (marker @ ''\<newline>## '' @ glyph_cycle
          @ '' Change8 Dependency Analysis\<newline>\<newline>'' @ rest)"
    by (rule prefixI) simp
  then have 3: "prefix marker (CHR ''<'' # t @ rest)"
    by (simp add: t_def marker_def)
  have "occurrences marker (CHR ''<'' # t @ rest)
          = (if prefix marker (CHR ''<'' # t @ rest) then 1 else 0) + occurrences marker (t @ rest)"
    by (rule occurrences.simps)
  also have "\<dots> = 1 + occurrences marker (t @ rest)"
    by (simp only: 3 if_True)
  finally have "occurrences marker (CHR ''<'' # t @ rest) = Suc (occurrences marker rest)"
    using 1 by linarith
  then show ?thesis by (simp only: 2 append_Cons)
qed

lemma comment_foot_count: "occurrences marker comment_foot = 0"
  by code_simp

text \<open>
  C6 (amended). generateComment returns null exactly when every result has an empty
  list of breaking changes. Otherwise it returns a string that starts with the marker,
  so the marker occurs at least once; it occurs exactly once when none of the texts
  rendered from the results (package, versions, guide URL, and the change and fix texts
  of the results that get a table) contains the marker.
\<close>

theorem generateComment_null_and_marker:
  "(generateComment P results = None \<longleftrightarrow> (\<forall>r \<in> set results. breakingChanges r = []))
   \<and> (\<forall>s. generateComment P results = Some s \<longrightarrow>
          prefix marker s \<and> 1 \<le> occurrences marker s)
   \<and> (\<forall>s. generateComment P results = Some s
          \<and> (\<forall>r \<in> set results. breakingChanges r \<noteq> [] \<longrightarrow>
                (\<forall>x \<in> set (rendered_fields P r). occurrences marker x = 0))
        \<longrightarrow> occurrences marker s = 1)"
proof (intro conjI allI impI)
  show "generateComment P results = None \<longleftrightarrow> (\<forall>r \<in> set results. breakingChanges r = [])"
    by (auto simp: generateComment_eq filter_empty_conv)
next
  fix s
  assume "generateComment P results = Some s"
  then obtain rest where s: "s = comment_head @ rest"
    by (auto simp: generateComment_eq split: if_splits)
  show "prefix marker s"
    by (simp only: s comment_head_def append_assoc) (rule prefixI, rule refl)
  show "1 \<le> occurrences marker s"
    using comment_head_count [of rest] by (simp only: s)
next
  fix s
  let ?rs = "filter (\<lambda>r. breakingChanges r \<noteq> []) results"
  assume a: "generateComment P results = Some s
          \<and> (\<forall>r \<in> set results. breakingChanges r \<noteq> [] \<longrightarrow>
                (\<forall>x \<in> set (rendered_fields P r). occurrences marker x = 0))"
  then have s: "s = comment_head @ concat (map (rendered_section P) ?rs) @ comment_foot"
    by (auto simp: generateComment_eq split: if_splits)
  from a have "\<forall>r \<in> set ?rs. \<forall>x \<in> set (rendered_fields P r). occurrences marker x = 0"
    by auto
  from sections_count [OF this, of comment_foot]
  show "occurrences marker s = 1"
    by (simp add: s comment_head_count comment_foot_count)
qed

lemma sample_comment_counts:
  "generateComment sample_platform [result_quiet] = None"
  "map_option (occurrences marker) (generateComment sample_platform [result_quiet, result_langchain])
     = Some 1"
  "list_all (\<lambda>x. occurrences marker x = 0) (rendered_fields sample_platform result_langchain)"
  "breakingChanges result_quiet = []"
  "breakingChanges result_langchain \<noteq> []"
  by code_simp+

theorem generateComment_null_and_marker_witness:
  "breakingChanges result_quiet = []
   \<and> generateComment sample_platform [result_quiet] = None
   \<and> breakingChanges result_langchain \<noteq> []
   \<and> list_all (\<lambda>x. occurrences marker x = 0) (rendered_fields sample_platform result_langchain)
   \<and> (\<exists>s. generateComment sample_platform [result_quiet, result_langchain] = Some s
          \<and> prefix marker s \<and> occurrences marker s = 1)"
proof -
  note none = generateComment_null_and_marker [of sample_platform "[result_quiet]"]
  note some = generateComment_null_and_marker [of sample_platform "[result_quiet, result_langchain]"]
  have 1: "generateComment sample_platform [result_quiet] = None"
    using none sample_comment_counts(4) by simp
  have "generateComment sample_platform [result_quiet, result_langchain] \<noteq> None"
    using some sample_comment_counts(5) by simp
  then obtain s where s: "generateComment sample_platform [result_quiet, result_langchain] = Some s"
    by blast
  have free: "\<forall>r \<in> set [result_quiet, result_langchain]. breakingChanges r \<noteq> [] \<longrightarrow>
          (\<forall>x \<in> set (rendered_fields sample_platform r). occurrences marker x = 0)"
    using sample_comment_counts(3,4) by (simp add: list_all_iff)
  from some s have 2: "prefix marker s" by blast
  from some s free have 3: "occurrences marker s = 1" by blast
  from 1 2 3 s sample_comment_counts(3,4,5) show ?thesis by blast
qed

text \<open>
  C6 as stated fails when a rendered text holds the marker: a breaking change whose
  text is the marker gives a comment in which the marker occurs twice.
\<close>

theorem marker_twice_in_comment:
  "breakingChanges result_marker \<noteq> []
   \<and> map_option (occurrences marker) (generateComment sample_platform [result_marker]) = Some 2"
  by code_simp

section \<open>The files the orchestrator reads\<close>

lemma slash_suffix_iff:
  "suffix (CHR ''/'' # name) f \<longleftrightarrow> (\<exists>dir. f = dir @ name \<and> dir \<noteq> [] \<and> last dir = CHR ''/'')"
proof
  assume "suffix (CHR ''/'' # name) f"
  then obtain zs where "f = zs @ CHR ''/'' # name" by (auto simp: suffix_def)
  then have "f = (zs @ ''/'') @ name \<and> zs @ ''/'' \<noteq> [] \<and> last (zs @ ''/'') = CHR ''/''"
    by simp
  then show "\<exists>dir. f = dir @ name \<and> dir \<noteq> [] \<and> last dir = CHR ''/''" by blast
next
  assume "\<exists>dir. f = dir @ name \<and> dir \<noteq> [] \<and> last dir = CHR ''/''"
  then obtain dir where d: "f = dir @ name" "dir \<noteq> []" "last dir = CHR ''/''" by blast
  then have "dir = butlast dir @ ''/''" by (metis append_butlast_last_id)
  with d(1) have "f = butlast dir @ CHR ''/'' # name" by (metis append.assoc append_Cons append_Nil)
  then show "suffix (CHR ''/'' # name) f" by (auto simp: suffix_def)
qed

text \<open>
  C8 (amended). The orchestrator keeps a changed file when its name is
  \<open>requirements.txt\<close> or \<open>package.json\<close>, alone or behind a directory path that ends in a
  slash, or when its name is exactly \<open>pyproject.toml\<close>; every other file is ignored. A
  \<open>pyproject.toml\<close> in a subdirectory is ignored.
\<close>

theorem depFiles_recognised:
  "set (depFiles files) =
     {f \<in> set files.
        (\<exists>dir. f = dir @ ''requirements.txt'' \<and> (dir = [] \<or> last dir = CHR ''/''))
        \<or> (\<exists>dir. f = dir @ ''package.json'' \<and> (dir = [] \<or> last dir = CHR ''/''))
        \<or> f = ''pyproject.toml''}
   \<and> depFiles (map (\<lambda>dir. dir @ ''/pyproject.toml'') dirs) = []"
proof
  have req: "(f = ''requirements.txt'' \<or> suffix ''/requirements.txt'' f)
      \<longleftrightarrow> (\<exists>dir. f = dir @ ''requirements.txt'' \<and> (dir = [] \<or> last dir = CHR ''/''))" for f
    using slash_suffix_iff [of "''requirements.txt''" f] by auto
  have pkg: "(f = ''package.json'' \<or> suffix ''/package.json'' f)
      \<longleftrightarrow> (\<exists>dir. f = dir @ ''package.json'' \<and> (dir = [] \<or> last dir = CHR ''/''))" for f
    using slash_suffix_iff [of "''package.json''" f] by auto
  show "set (depFiles files) =
     {f \<in> set files.
        (\<exists>dir. f = dir @ ''requirements.txt'' \<and> (dir = [] \<or> last dir = CHR ''/''))
        \<or> (\<exists>dir. f = dir @ ''package.json'' \<and> (dir = [] \<or> last dir = CHR ''/''))
        \<or> f = ''pyproject.toml''}"
    unfolding depFiles_def set_filter using req pkg by blast
next
  have "\<not> (f = ''requirements.txt'' \<or> f = ''package.json'' \<or> f = ''pyproject.toml''
           \<or> suffix ''/requirements.txt'' f \<or> suffix ''/package.json'' f)"
    if "f = dir @ ''/pyproject.toml''" for f dir
  proof -
    from that have s: "suffix ''/pyproject.toml'' f" by (simp add: suffix_def)
    have "last f = CHR ''l''" using that by simp
    moreover have "length f \<ge> 15" using that by simp
    ultimately show ?thesis
      by (auto simp: suffix_def)
  qed
  then show "depFiles (map (\<lambda>dir. dir @ ''/pyproject.toml'') dirs) = []"
    by (auto simp: depFiles_def filter_empty_conv)
qed

text \<open>
  C8 as stated fails for a pyproject.toml in a subdirectory: its path ends in
  \<open>/pyproject.toml\<close> and the orchestrator drops it.
\<close>

theorem nested_pyproject_ignored:
  "suffix ''/pyproject.toml'' ''backend/pyproject.toml''
   \<and> depFiles [''backend/pyproject.toml'', ''backend/requirements.txt''] = [''backend/requirements.txt'']"
  by code_simp

end
